theory Spec2Isabelle
  imports Main
begin

section \<open>Text, errors and the Unicode tables of the interpreter\<close>

text \<open>
  A Python \<open>str\<close> is a sequence of Unicode code points; a code point is a natural
  number and a text is a list of them, so that \<open>length\<close> counts what Python's \<open>len\<close>
  counts. Literals are written by their code points.
\<close>

type_synonym pystr = "nat list"

text \<open>Every exception the modelled code can raise is a value.\<close>

datatype error =
    AttributeError
  | ValueError
  | IndexError
  | KeyError
  | OverflowError
  | CollaboratorFailure pystr

text \<open>
  The character tables of the interpreter that the code reads through \<open>str.strip\<close>,
  \<open>str.lower\<close>, the regular-expression class \<open>\d\<close> and \<open>int\<close> are not part of the
  repository; they are parameters of the model.
\<close>

record unicode_db =
  isspace :: "nat \<Rightarrow> bool"
  isdecimal :: "nat \<Rightarrow> bool"
  decimal_value :: "nat \<Rightarrow> nat"
  lower :: "pystr \<Rightarrow> pystr"

text \<open>\<open>s.strip()\<close>: leading and trailing whitespace removed.\<close>

definition strip :: "unicode_db \<Rightarrow> pystr \<Rightarrow> pystr" where
  "strip U s = rev (dropWhile (isspace U) (rev (dropWhile (isspace U) s)))"

text \<open>
  A table for evaluating examples: the whitespace code points of CPython, the ASCII
  decimal digits, and lower-casing of the ASCII capital letters.
\<close>

definition sample_isspace :: "nat \<Rightarrow> bool" where
  "sample_isspace c =
     ((9 \<le> c \<and> c \<le> 13) \<or> (28 \<le> c \<and> c \<le> 32) \<or> c = 0x85 \<or> c = 0xA0 \<or> c = 0x1680
      \<or> (0x2000 \<le> c \<and> c \<le> 0x200A) \<or> c = 0x2028 \<or> c = 0x2029 \<or> c = 0x202F
      \<or> c = 0x205F \<or> c = 0x3000)"

definition sample_db :: unicode_db where
  "sample_db =
     \<lparr> isspace = sample_isspace,
       isdecimal = (\<lambda>c. 48 \<le> c \<and> c \<le> 57),
       decimal_value = (\<lambda>c. c - 48),
       lower = map (\<lambda>c. if 65 \<le> c \<and> c \<le> 90 then c + 32 else c) \<rparr>"


section \<open>Chinese/Split.py: sentence chunking\<close>

definition MIN_SENTENCE_LENGTH :: nat where
  "MIN_SENTENCE_LENGTH = 5"

text \<open>\<open>SENTENCE_TERMINATORS\<close>: full-width comma, ideographic full stop, full-width
  exclamation mark, full-width question mark, horizontal ellipsis.\<close>

definition SENTENCE_TERMINATORS :: pystr where
  "SENTENCE_TERMINATORS = [0xFF0C, 0x3002, 0xFF01, 0xFF1F, 0x2026]"

text \<open>\<open>VALID_CHAR_PATTERN\<close>: CJK unified ideographs, ASCII letters, ASCII digits.\<close>

definition VALID_CHAR :: "nat \<Rightarrow> bool" where
  "VALID_CHAR c =
     ((0x4E00 \<le> c \<and> c \<le> 0x9FFF) \<or> (97 \<le> c \<and> c \<le> 122) \<or> (65 \<le> c \<and> c \<le> 90)
      \<or> (48 \<le> c \<and> c \<le> 57))"

definition get_valid_text_length :: "pystr \<Rightarrow> nat" where
  "get_valid_text_length sentence = length (filter VALID_CHAR sentence)"

text \<open>
  \<open>re.split('(?<=[...])', long_text)\<close>: the pattern matches the empty string at every
  position that follows a terminator, the end of the text included, and the text is cut
  at each such position.
\<close>

fun split_after_terminators :: "pystr \<Rightarrow> pystr list" where
  "split_after_terminators [] = [[]]"
| "split_after_terminators (c # cs) =
     (if c \<in> set SENTENCE_TERMINATORS then [c] # split_after_terminators cs
      else (case split_after_terminators cs of
              [] \<Rightarrow> [[c]]
            | p # ps \<Rightarrow> (c # p) # ps))"

text \<open>The comprehension \<open>[s.strip() for s in raw_sentences if s.strip()]\<close>.\<close>

definition raw_sentences :: "unicode_db \<Rightarrow> pystr \<Rightarrow> pystr list" where
  "raw_sentences U long_text =
     map (strip U) (filter (\<lambda>s. strip U s \<noteq> []) (split_after_terminators long_text))"

text \<open>The merge loop; \<open>final_sentences[-1] += sentence\<close> extends the last chunk.\<close>

fun merge_short :: "pystr list \<Rightarrow> pystr list \<Rightarrow> pystr list" where
  "merge_short final_sentences [] = final_sentences"
| "merge_short final_sentences (sentence # rest) =
     (if final_sentences \<noteq> [] \<and> get_valid_text_length sentence < MIN_SENTENCE_LENGTH
      then merge_short (butlast final_sentences @ [last final_sentences @ sentence]) rest
      else merge_short (final_sentences @ [sentence]) rest)"

definition split_chinese_text :: "unicode_db \<Rightarrow> pystr \<Rightarrow> pystr list" where
  "split_chinese_text U long_text =
     (if long_text = [] then []
      else if raw_sentences U long_text = []
           then (if strip U long_text \<noteq> [] then [long_text] else [])
      else merge_short [] (raw_sentences U long_text))"


section \<open>Regular expressions of Japanese/JapaneseG2P.py\<close>

text \<open>
  \<open>re.search\<close> tries the start positions from left to right and returns the first match;
  the matcher \<open>m\<close> is the pattern anchored at the start of the remaining text and returns
  the text of group 1.
\<close>

fun re_search :: "(pystr \<Rightarrow> pystr option) \<Rightarrow> pystr \<Rightarrow> pystr option" where
  "re_search m [] = m []"
| "re_search m (c # cs) = (case m (c # cs) of Some g \<Rightarrow> Some g | None \<Rightarrow> re_search m cs)"

fun starts_with :: "pystr \<Rightarrow> pystr \<Rightarrow> bool" where
  "starts_with [] s = True"
| "starts_with (x # xs) [] = False"
| "starts_with (x # xs) (y # ys) = (x = y \<and> starts_with xs ys)"

text \<open>Python's \<open>needle in haystack\<close> on strings: a contiguous substring.\<close>

fun str_contains :: "pystr \<Rightarrow> pystr \<Rightarrow> bool" where
  "str_contains needle [] = (needle = [])"
| "str_contains needle (c # cs) = (starts_with needle (c # cs) \<or> str_contains needle cs)"

text \<open>
  The pattern \<open>-(.*?)\+\<close> at a start position: a hyphen (45), then as few characters
  other than the newline (10) as possible, then a plus sign (43). The group is the text
  up to the first plus sign, and there is no match when a newline or the end of the
  text comes before it.
\<close>

definition match_p3 :: "pystr \<Rightarrow> pystr option" where
  "match_p3 s =
     (case s of
        [] \<Rightarrow> None
      | c # cs \<Rightarrow>
          if c = 45 then
            (let g = takeWhile (\<lambda>x. x \<noteq> 43 \<and> x \<noteq> 10) cs in
             case drop (length g) cs of
               [] \<Rightarrow> None
             | d # _ \<Rightarrow> if d = 43 then Some g else None)
          else None)"

text \<open>
  A group \<open>(P+)\<close> followed by the literal \<open>b\<close>: one or more characters of the class,
  the longest run first, giving characters back until \<open>b\<close> follows.
\<close>

fun greedy_plus_then :: "(nat \<Rightarrow> bool) \<Rightarrow> nat \<Rightarrow> pystr \<Rightarrow> pystr option" where
  "greedy_plus_then P b [] = None"
| "greedy_plus_then P b (x # xs) =
     (if P x then
        (case greedy_plus_then P b xs of
           Some g \<Rightarrow> Some (x # g)
         | None \<Rightarrow> (case xs of [] \<Rightarrow> None | y # _ \<Rightarrow> if y = b then Some [x] else None))
      else None)"

text \<open>The five numeric-feature patterns that \<open>_pyopenjtalk_g2p_prosody\<close> passes to
  \<open>_numeric_feature_by_regex\<close>.\<close>

datatype feature_regex =
    E3  \<comment> \<open>\<open>!(\d+)_\<close>\<close>
  | A1  \<comment> \<open>\<open>/A:([0-9\-]+)\+\<close>\<close>
  | A2  \<comment> \<open>\<open>\+(\d+)\+\<close>\<close>
  | A3  \<comment> \<open>\<open>\+(\d+)/\<close>\<close>
  | F1  \<comment> \<open>\<open>/F:(\d+)_\<close>\<close>

fun regex_prefix :: "feature_regex \<Rightarrow> pystr" where
  "regex_prefix E3 = [33]"
| "regex_prefix A1 = [47, 65, 58]"
| "regex_prefix A2 = [43]"
| "regex_prefix A3 = [43]"
| "regex_prefix F1 = [47, 70, 58]"

fun regex_class :: "unicode_db \<Rightarrow> feature_regex \<Rightarrow> nat \<Rightarrow> bool" where
  "regex_class U A1 c = ((48 \<le> c \<and> c \<le> 57) \<or> c = 45)"
| "regex_class U rx c = isdecimal U c"

fun regex_end :: "feature_regex \<Rightarrow> nat" where
  "regex_end E3 = 95"
| "regex_end A1 = 43"
| "regex_end A2 = 43"
| "regex_end A3 = 47"
| "regex_end F1 = 95"

definition match_feature :: "unicode_db \<Rightarrow> feature_regex \<Rightarrow> pystr \<Rightarrow> pystr option" where
  "match_feature U rx s =
     (if starts_with (regex_prefix rx) s
      then greedy_plus_then (regex_class U rx) (regex_end rx) (drop (length (regex_prefix rx)) s)
      else None)"

text \<open>
  \<open>int(s)\<close> on a text of decimal digits and hyphens: an optional leading minus sign and at
  least one decimal digit, anything else raises \<open>ValueError\<close>. (The interpreter's limit
  on the number of digits of a literal is not modelled.)
\<close>

definition digits_value :: "unicode_db \<Rightarrow> pystr \<Rightarrow> nat" where
  "digits_value U ds = foldl (\<lambda>acc d. 10 * acc + decimal_value U d) 0 ds"

definition py_int :: "unicode_db \<Rightarrow> pystr \<Rightarrow> error + int" where
  "py_int U s =
     (case s of
        [] \<Rightarrow> Inl ValueError
      | c # cs \<Rightarrow>
          if c = 45 then
            (if cs \<noteq> [] \<and> list_all (isdecimal U) cs then Inr (- int (digits_value U cs))
             else Inl ValueError)
          else if list_all (isdecimal U) s then Inr (int (digits_value U s))
          else Inl ValueError)"

definition numeric_feature_by_regex :: "unicode_db \<Rightarrow> feature_regex \<Rightarrow> pystr \<Rightarrow> error + int" where
  "numeric_feature_by_regex U regex s =
     (case re_search (match_feature U regex) s of
        Some g \<Rightarrow> py_int U g
      | None \<Rightarrow> Inr (- 50))"

text \<open>\<open>_JAPANESE_CHARACTERS_RE\<close>; \<open>_JAPANESE_MARKS_RE\<close> is its complement.\<close>

definition japanese_character :: "unicode_db \<Rightarrow> nat \<Rightarrow> bool" where
  "japanese_character U c =
     ((65 \<le> c \<and> c \<le> 90) \<or> (97 \<le> c \<and> c \<le> 122) \<or> isdecimal U c \<or> c = 0x3005
      \<or> (0x3040 \<le> c \<and> c \<le> 0x30FF) \<or> (0x4E00 \<le> c \<and> c \<le> 0x9FFF)
      \<or> (0xFF11 \<le> c \<and> c \<le> 0xFF19) \<or> (0xFF21 \<le> c \<and> c \<le> 0xFF3A)
      \<or> (0xFF41 \<le> c \<and> c \<le> 0xFF5A) \<or> (0xFF66 \<le> c \<and> c \<le> 0xFF9D))"

definition japanese_mark :: "unicode_db \<Rightarrow> nat \<Rightarrow> bool" where
  "japanese_mark U c = (\<not> japanese_character U c)"

text \<open>\<open>pattern.split(s)\<close> and \<open>pattern.findall(s)\<close> for a pattern that matches exactly
  one character of a class.\<close>

fun re_split_chars :: "(nat \<Rightarrow> bool) \<Rightarrow> pystr \<Rightarrow> pystr list" where
  "re_split_chars P [] = [[]]"
| "re_split_chars P (c # cs) =
     (if P c then [] # re_split_chars P cs
      else (case re_split_chars P cs of
              [] \<Rightarrow> [[c]]
            | p # ps \<Rightarrow> (c # p) # ps))"

definition re_findall_chars :: "(nat \<Rightarrow> bool) \<Rightarrow> pystr \<Rightarrow> pystr list" where
  "re_findall_chars P s = map (\<lambda>c. [c]) (filter P s)"

text \<open>\<open>is_chinese\<close>: some character lies in U+4E00..U+9FA5.\<close>

definition is_chinese :: "pystr \<Rightarrow> bool" where
  "is_chinese t = list_ex (\<lambda>c. 0x4E00 \<le> c \<and> c \<le> 0x9FA5) t"


section \<open>Japanese/JapaneseG2P.py\<close>

text \<open>
  The collaborators outside the repository: the Japanese front-end
  (\<open>pyopenjtalk.make_label\<close> after \<open>pyopenjtalk.run_frontend\<close>, and \<open>pyopenjtalk.g2p\<close>), the
  romanization engine (\<open>pypinyin.pinyin\<close> in style TONE3 with the neutral tone written 5,
  \<open>get_initials\<close> and \<open>get_finals\<close> with \<open>strict=False\<close>), and the symbol table
  \<open>symbol_to_id_v2\<close> of the module SymbolsV2. A collaborator that raises returns \<open>Inl\<close>.
\<close>

record collab =
  make_label :: "pystr \<Rightarrow> error + pystr list"
  openjtalk_g2p :: "pystr \<Rightarrow> error + pystr"
  pinyin :: "pystr \<Rightarrow> error + pystr list list"
  get_initials :: "pystr \<Rightarrow> pystr"
  get_finals :: "pystr \<Rightarrow> pystr"
  symbol_to_id_v2 :: "pystr \<rightharpoonup> int"

definition sym_sil :: pystr where "sym_sil = [115, 105, 108]"
definition sym_pau :: pystr where "sym_pau = [112, 97, 117]"
definition sym_start :: pystr where "sym_start = [94]"
definition sym_end :: pystr where "sym_end = [36]"
definition sym_rising :: pystr where "sym_rising = [63]"
definition sym_pause :: pystr where "sym_pause = [95]"
definition sym_accent_phrase :: pystr where "sym_accent_phrase = [35]"
definition sym_fall :: pystr where "sym_fall = [93]"
definition sym_rise :: pystr where "sym_rise = [91]"
definition str_AEIOU :: pystr where "str_AEIOU = [65, 69, 73, 79, 85]"
definition str_vowels_N_cl :: pystr where
  "str_vowels_N_cl = [97, 101, 105, 111, 117, 65, 69, 73, 79, 85, 78, 99, 108]"
definition sym_UNK :: pystr where "sym_UNK = [85, 78, 75]"

text \<open>\<open>_text_normalize\<close>: the percent signs (37 and U+FF05) become the katakana word,
  a run of one repeated punctuation character becomes one character, and the text is
  lower-cased.\<close>

definition katakana_percent :: pystr where
  "katakana_percent = [0x30D1, 0x30FC, 0x30BB, 0x30F3, 0x30C8]"

definition re_sub_char :: "nat \<Rightarrow> pystr \<Rightarrow> pystr \<Rightarrow> pystr" where
  "re_sub_char c replacement s = concat (map (\<lambda>x. if x = c then replacement else [x]) s)"

definition consecutive_punctuation :: "nat \<Rightarrow> bool" where
  "consecutive_punctuation c = (c \<in> set [44, 46, 47, 63, 33, 126, 0x2026, 0x30FB])"

function collapse_repeats :: "pystr \<Rightarrow> pystr" where
  "collapse_repeats [] = []"
| "collapse_repeats (c # cs) =
     (if consecutive_punctuation c then c # collapse_repeats (dropWhile (\<lambda>x. x = c) cs)
      else c # collapse_repeats cs)"
  by pat_completeness auto
termination
  by (relation "measure length") (auto simp: less_Suc_eq_le length_dropWhile_le)

definition text_normalize :: "unicode_db \<Rightarrow> pystr \<Rightarrow> pystr" where
  "text_normalize U t =
     lower U (collapse_repeats (re_sub_char 0xFF05 katakana_percent
                                 (re_sub_char 37 katakana_percent t)))"

text \<open>\<open>_post_replace_phoneme\<close>: the lookup \<open>rep_map.get(ph, ph)\<close>.\<close>

definition rep_map :: "pystr \<rightharpoonup> pystr" where
  "rep_map =
     [ [0xFF1A] \<mapsto> [44], [0xFF1B] \<mapsto> [44], [0xFF0C] \<mapsto> [44], [0x3002] \<mapsto> [46],
       [0xFF01] \<mapsto> [33], [0xFF1F] \<mapsto> [63], [10] \<mapsto> [46], [0xB7] \<mapsto> [44],
       [0x3001] \<mapsto> [44], [46, 46, 46] \<mapsto> [0x2026] ]"

definition post_replace_phoneme :: "pystr \<Rightarrow> pystr" where
  "post_replace_phoneme ph = (case rep_map ph of Some r \<Rightarrow> r | None \<Rightarrow> ph)"

text \<open>The \<open>if\<close>/\<open>elif\<close> chain that ends the loop body of \<open>_pyopenjtalk_g2p_prosody\<close>:
  the symbols appended after the phone.\<close>

definition boundary_marker :: "pystr \<Rightarrow> int \<Rightarrow> int \<Rightarrow> int \<Rightarrow> int \<Rightarrow> int \<Rightarrow> pystr list" where
  "boundary_marker p3 a1 a2 a3 f1 a2_next =
     (if a3 = 1 \<and> a2_next = 1 \<and> str_contains p3 str_vowels_N_cl then [sym_accent_phrase]
      else if a1 = 0 \<and> a2_next = a2 + 1 \<and> a2 \<noteq> f1 then [sym_fall]
      else if a2 = 1 \<and> a2_next = 2 then [sym_rise]
      else [])"

text \<open>The current phone: group 1 of \<open>-(.*?)\+\<close>, lower-cased when it is a substring of
  \<open>"AEIOU"\<close>; \<open>.group(1)\<close> on no match raises \<open>AttributeError\<close>.\<close>

definition phone_of_label :: "unicode_db \<Rightarrow> pystr \<Rightarrow> error + pystr" where
  "phone_of_label U lab_curr =
     (case re_search match_p3 lab_curr of
        None \<Rightarrow> Inl AttributeError
      | Some g \<Rightarrow> Inr (if str_contains g str_AEIOU then lower U g else g))"

text \<open>One pass of the loop body for the label \<open>lab_curr\<close> at index \<open>n\<close>: the symbols it
  appends to \<open>phones\<close>.\<close>

definition label_phones :: "unicode_db \<Rightarrow> pystr list \<Rightarrow> nat \<Rightarrow> pystr \<Rightarrow> error + pystr list" where
  "label_phones U labels n lab_curr =
     (case phone_of_label U lab_curr of
        Inl e \<Rightarrow> Inl e
      | Inr p3 \<Rightarrow>
          if p3 = sym_sil then
            (if n = 0 then Inr [sym_start]
             else if int n = int (length labels) - 1 then
               (case numeric_feature_by_regex U E3 lab_curr of
                  Inl e \<Rightarrow> Inl e
                | Inr e3 \<Rightarrow> Inr [if e3 = 1 then sym_rising else sym_end])
             else Inr [])
          else if p3 = sym_pau then Inr [sym_pause]
          else
            (case numeric_feature_by_regex U A1 lab_curr of
               Inl e \<Rightarrow> Inl e
             | Inr a1 \<Rightarrow>
            (case numeric_feature_by_regex U A2 lab_curr of
               Inl e \<Rightarrow> Inl e
             | Inr a2 \<Rightarrow>
            (case numeric_feature_by_regex U A3 lab_curr of
               Inl e \<Rightarrow> Inl e
             | Inr a3 \<Rightarrow>
            (case numeric_feature_by_regex U F1 lab_curr of
               Inl e \<Rightarrow> Inl e
             | Inr f1 \<Rightarrow>
            (case numeric_feature_by_regex U A2
                    (if Suc n < length labels then labels ! Suc n else []) of
               Inl e \<Rightarrow> Inl e
             | Inr a2_next \<Rightarrow> Inr (p3 # boundary_marker p3 a1 a2 a3 f1 a2_next)))))))"

text \<open>The \<open>for n, lab_curr in enumerate(labels)\<close> loop; \<open>phones\<close> is the list built so
  far.\<close>

fun prosody_loop ::
  "unicode_db \<Rightarrow> pystr list \<Rightarrow> nat \<Rightarrow> pystr list \<Rightarrow> pystr list \<Rightarrow> error + pystr list" where
  "prosody_loop U labels n [] phones = Inr phones"
| "prosody_loop U labels n (lab_curr # rest) phones =
     (case label_phones U labels n lab_curr of
        Inl e \<Rightarrow> Inl e
      | Inr new \<Rightarrow> prosody_loop U labels (Suc n) rest (phones @ new))"

definition prosody_of_labels :: "unicode_db \<Rightarrow> pystr list \<Rightarrow> error + pystr list" where
  "prosody_of_labels U labels = prosody_loop U labels 0 labels []"

definition pyopenjtalk_g2p_prosody :: "unicode_db \<Rightarrow> collab \<Rightarrow> pystr \<Rightarrow> error + pystr list" where
  "pyopenjtalk_g2p_prosody U C t =
     (case make_label C t of
        Inl e \<Rightarrow> Inl e
      | Inr labels \<Rightarrow> prosody_of_labels U labels)"

text \<open>\<open>_chinese_g2p\<close> (the same text as \<open>ChineseG2P._get_phonemes\<close>): per syllable, the
  tone digits are cut from the right, a missing tone is 5, and the initial and the
  final with the tone are appended when not empty. \<open>p_list[0]\<close> on an empty list raises
  \<open>IndexError\<close>.\<close>

definition tone_digit :: "nat \<Rightarrow> bool" where
  "tone_digit c = (49 \<le> c \<and> c \<le> 53)"

definition syllable_phonemes :: "collab \<Rightarrow> pystr \<Rightarrow> pystr list" where
  "syllable_phonemes C syllable_with_tone =
     (let syllable = rev (dropWhile tone_digit (rev syllable_with_tone));
          tone0 = drop (length syllable) syllable_with_tone;
          tone = (if tone0 = [] then [53] else tone0);
          initial = get_initials C syllable;
          final = get_finals C syllable
      in (if initial \<noteq> [] then [initial] else [])
         @ (if final \<noteq> [] then [final @ tone] else []))"

fun pinyin_loop :: "collab \<Rightarrow> pystr list list \<Rightarrow> pystr list \<Rightarrow> error + pystr list" where
  "pinyin_loop C [] phonemes = Inr phonemes"
| "pinyin_loop C (p_list # rest) phonemes =
     (case p_list of
        [] \<Rightarrow> Inl IndexError
      | syllable_with_tone # _ \<Rightarrow>
          pinyin_loop C rest (phonemes @ syllable_phonemes C syllable_with_tone))"

definition chinese_g2p :: "collab \<Rightarrow> pystr \<Rightarrow> error + pystr list" where
  "chinese_g2p C t =
     (case pinyin C t of
        Inl e \<Rightarrow> Inl e
      | Inr pinyins \<Rightarrow> pinyin_loop C pinyins [])"

text \<open>The phones of one segment in \<open>g2p\<close>: nothing for an empty segment, else the
  label-based result with its first and last element cut (\<open>[1:-1]\<close>), or the plain
  reading split at the spaces.\<close>

definition segment_phones :: "unicode_db \<Rightarrow> collab \<Rightarrow> bool \<Rightarrow> pystr \<Rightarrow> error + pystr list" where
  "segment_phones U C with_prosody segment =
     (if segment \<noteq> [] then
        (if with_prosody then
           (case pyopenjtalk_g2p_prosody U C segment of
              Inl e \<Rightarrow> Inl e
            | Inr phones \<Rightarrow> Inr (butlast (tl phones)))
         else
           (case openjtalk_g2p C segment of
              Inl e \<Rightarrow> Inl e
            | Inr reading \<Rightarrow> Inr (re_split_chars (\<lambda>c. c = 32) reading)))
      else Inr [])"

text \<open>The mark appended after segment \<open>i\<close>: \<open>punctuation_marks[i].strip()\<close> when there is
  one and it is not empty.\<close>

definition mark_after :: "unicode_db \<Rightarrow> pystr list \<Rightarrow> nat \<Rightarrow> pystr list" where
  "mark_after U punctuation_marks i =
     (if i < length punctuation_marks
      then (let mark = strip U (punctuation_marks ! i) in if mark \<noteq> [] then [mark] else [])
      else [])"

fun g2p_loop ::
  "unicode_db \<Rightarrow> collab \<Rightarrow> bool \<Rightarrow> pystr list \<Rightarrow> nat \<Rightarrow> pystr list \<Rightarrow> pystr list
   \<Rightarrow> error + pystr list" where
  "g2p_loop U C with_prosody punctuation_marks i [] phonemes = Inr phonemes"
| "g2p_loop U C with_prosody punctuation_marks i (segment # rest) phonemes =
     (case segment_phones U C with_prosody segment of
        Inl e \<Rightarrow> Inl e
      | Inr phones \<Rightarrow>
          g2p_loop U C with_prosody punctuation_marks (Suc i) rest
            (phonemes @ phones @ mark_after U punctuation_marks i))"

text \<open>The part of \<open>g2p\<close> below the comment \<open># Japanese processing\<close>.\<close>

definition japanese_processing :: "unicode_db \<Rightarrow> collab \<Rightarrow> pystr \<Rightarrow> bool \<Rightarrow> error + pystr list" where
  "japanese_processing U C t with_prosody =
     (let norm_text = text_normalize U t;
          japanese_segments = re_split_chars (japanese_mark U) norm_text;
          punctuation_marks = re_findall_chars (japanese_mark U) norm_text
      in case g2p_loop U C with_prosody punctuation_marks 0 japanese_segments [] of
           Inl e \<Rightarrow> Inl e
         | Inr phonemes \<Rightarrow> Inr (map post_replace_phoneme phonemes))"

definition g2p :: "unicode_db \<Rightarrow> collab \<Rightarrow> pystr \<Rightarrow> bool \<Rightarrow> error + pystr list" where
  "g2p U C t with_prosody =
     (if strip U t = [] then Inr []
      else if is_chinese t then chinese_g2p C t
      else japanese_processing U C t with_prosody)"

text \<open>The encoding that ends \<open>japanese_to_phones\<close> and \<open>chinese_to_phones\<close> (the same text
  in both): a symbol outside the table becomes \<open>"UNK"\<close>, then every symbol is looked up,
  and a lookup of a missing key raises \<open>KeyError\<close>.\<close>

definition valid_phones :: "collab \<Rightarrow> pystr list \<Rightarrow> pystr list" where
  "valid_phones C phones =
     map (\<lambda>ph. if ph \<in> dom (symbol_to_id_v2 C) then ph else sym_UNK) phones"

fun lookup_ids :: "collab \<Rightarrow> pystr list \<Rightarrow> error + int list" where
  "lookup_ids C [] = Inr []"
| "lookup_ids C (ph # phs) =
     (case symbol_to_id_v2 C ph of
        None \<Rightarrow> Inl KeyError
      | Some i \<Rightarrow> (case lookup_ids C phs of Inl e \<Rightarrow> Inl e | Inr ids \<Rightarrow> Inr (i # ids)))"

definition phones_to_ids :: "collab \<Rightarrow> pystr list \<Rightarrow> error + int list" where
  "phones_to_ids C phones = lookup_ids C (valid_phones C phones)"

definition japanese_to_phones :: "unicode_db \<Rightarrow> collab \<Rightarrow> pystr \<Rightarrow> error + int list" where
  "japanese_to_phones U C t =
     (case g2p U C t True of
        Inl e \<Rightarrow> Inl e
      | Inr phones \<Rightarrow> phones_to_ids C phones)"


section \<open>Chinese/ChineseG2P.py\<close>

text \<open>The character class of \<open>_PUNCTUATION_RE\<close>.\<close>

definition punctuation :: "nat \<Rightarrow> bool" where
  "punctuation c =
     (c \<in> set [44, 46, 47, 63, 33, 126, 0x2026, 0x30FB, 59, 58, 34, 39, 10, 9, 32,
               0x3001, 0xFF0C, 0x3002, 0xFF01, 0xFF1F, 0xFF1B, 0xFF1A])"

text \<open>
  \<open>_PUNCTUATION_RE.split(text)\<close>: the pattern is one group of one or more punctuation
  characters, so the result alternates the text before a run, the run itself, and so
  on, and ends with the text after the last run.
\<close>

function split_punctuation :: "pystr \<Rightarrow> pystr list" where
  "split_punctuation s =
     (let content = takeWhile (\<lambda>c. \<not> punctuation c) s;
          rest = dropWhile (\<lambda>c. \<not> punctuation c) s
      in if rest = [] then [content]
         else content # takeWhile punctuation rest
                # split_punctuation (dropWhile punctuation rest))"
  by pat_completeness auto
termination
proof (relation "measure length")
  show "wf (measure length)" by simp
next
  fix s :: pystr and content rest
  assume rest: "rest = dropWhile (\<lambda>c. \<not> punctuation c) s" and nonempty: "rest \<noteq> []"
  have "punctuation (hd rest)"
    using rest nonempty hd_dropWhile by metis
  then have "length (dropWhile punctuation rest) < length rest"
    using nonempty by (cases rest) (auto simp: less_Suc_eq_le length_dropWhile_le)
  also have "length rest \<le> length s"
    by (simp add: rest length_dropWhile_le)
  finally show "(dropWhile punctuation rest, s) \<in> measure length"
    by simp
qed

definition fullmatch_punctuation :: "pystr \<Rightarrow> bool" where
  "fullmatch_punctuation segment = (segment \<noteq> [] \<and> list_all punctuation segment)"

text \<open>The loop over the segments of \<open>ChineseG2P.g2p\<close>.\<close>

fun chinese_segments_loop ::
  "unicode_db \<Rightarrow> collab \<Rightarrow> pystr list \<Rightarrow> pystr list \<Rightarrow> error + pystr list" where
  "chinese_segments_loop U C [] result_phonemes = Inr result_phonemes"
| "chinese_segments_loop U C (segment # rest) result_phonemes =
     (if segment = [] then chinese_segments_loop U C rest result_phonemes
      else if fullmatch_punctuation segment
           then chinese_segments_loop U C rest (result_phonemes @ [strip U segment])
      else (case chinese_g2p C segment of
              Inl e \<Rightarrow> Inl e
            | Inr phonemes \<Rightarrow> chinese_segments_loop U C rest (result_phonemes @ phonemes)))"

definition ChineseG2P_g2p :: "unicode_db \<Rightarrow> collab \<Rightarrow> pystr \<Rightarrow> error + pystr list" where
  "ChineseG2P_g2p U C t =
     (if strip U t = [] then Inr []
      else case chinese_segments_loop U C (split_punctuation t) [] of
             Inl e \<Rightarrow> Inl e
           | Inr result_phonemes \<Rightarrow>
               Inr (filter (\<lambda>p. p \<noteq> []) (map post_replace_phoneme result_phonemes)))"

definition chinese_to_phones :: "unicode_db \<Rightarrow> collab \<Rightarrow> pystr \<Rightarrow> error + int list" where
  "chinese_to_phones U C t =
     (case ChineseG2P_g2p U C t of
        Inl e \<Rightarrow> Inl e
      | Inr phones \<Rightarrow> phones_to_ids C phones)"


section \<open>The cache of reference audio\<close>

subsection \<open>The bounded cache\<close>

text \<open>
  Modelled from the spec: the class \<open>LRUCacheDict\<close> of \<open>Utils/Utils.py\<close> is not among the
  source files. The spec describes it as a mapping from the audio key to the entry with
  a maximum size fixed at construction, an order of use for eviction (``the entry least
  recently accessed/inserted is removed first''), and ``exceeding capacity always evicts
  exactly one entry (the least recently used) per insertion''. The entries are kept
  from the least to the most recently used. A lookup moves the key to the most recent
  end; an insertion puts the key at the most recent end and, when the size then exceeds
  the capacity, removes the entry at the least recent end.
\<close>

record 'v lru_cache =
  capacity :: nat
  entries :: "(pystr \<times> 'v) list"

text \<open>Modelled from the spec: \<open>LRUCacheDict(capacity=n)\<close>, the empty cache with ``a fixed maximum
  size''.\<close>

definition lru_empty :: "nat \<Rightarrow> 'v lru_cache" where
  "lru_empty n = \<lparr> capacity = n, entries = [] \<rparr>"

text \<open>Modelled from the spec: the keys in order of use, and the entries without a key.\<close>

definition lru_keys :: "'v lru_cache \<Rightarrow> pystr list" where
  "lru_keys c = map fst (entries c)"

text \<open>Modelled from the spec: the test \<open>key in cache\<close>, which does not count as a use.\<close>

definition lru_contains :: "'v lru_cache \<Rightarrow> pystr \<Rightarrow> bool" where
  "lru_contains c k = (k \<in> set (lru_keys c))"

definition lru_without :: "pystr \<Rightarrow> (pystr \<times> 'v) list \<Rightarrow> (pystr \<times> 'v) list" where
  "lru_without k es = filter (\<lambda>e. fst e \<noteq> k) es"

text \<open>Modelled from the spec: the lookup \<open>cache[key]\<close>; the key becomes the most recently
  used (``least recently accessed/inserted''), and a missing key raises \<open>KeyError\<close>.\<close>

definition lru_get :: "'v lru_cache \<Rightarrow> pystr \<Rightarrow> error + ('v \<times> 'v lru_cache)" where
  "lru_get c k =
     (case map_of (entries c) k of
        None \<Rightarrow> Inl KeyError
      | Some v \<Rightarrow> Inr (v, c\<lparr>entries := lru_without k (entries c) @ [(k, v)]\<rparr>))"

text \<open>Modelled from the spec: the assignment \<open>cache[key] = value\<close>; ``exceeding capacity
  always evicts exactly one entry (the least recently used) per insertion''. For a
  capacity above 0 this is the spec's ``if the cache is at capacity, evict the
  least-recently-used entry before inserting'' (lemma \<open>lru_set_evict_first\<close>).\<close>

definition lru_set :: "'v lru_cache \<Rightarrow> pystr \<Rightarrow> 'v \<Rightarrow> 'v lru_cache" where
  "lru_set c k v =
     (let es = lru_without k (entries c) @ [(k, v)]
      in c\<lparr>entries := (if capacity c < length es then tl es else es)\<rparr>)"

text \<open>Modelled from the spec: \<open>clear()\<close> ``empties the cache, dropping all entries''.\<close>

definition lru_clear :: "'v lru_cache \<Rightarrow> 'v lru_cache" where
  "lru_clear c = c\<lparr>entries := []\<rparr>"


subsection \<open>Audio/ReferenceAudio.py\<close>

text \<open>
  A 32-bit float is kept as an opaque value, a natural number for its bit pattern; the
  code computes nothing with the floats it stores, and \<open>np.zeros\<close> gives the pattern 0.
\<close>

type_synonym f32 = nat

text \<open>
  The collaborators of \<open>ReferenceAudio\<close>: the audio loader, the resampler to 16 kHz, the
  loading and the running of the audio encoder of \<open>model_manager\<close>, the text-embedding
  model behind \<open>_extract_bert_features\<close> (tokenizer and ONNX session; the result is
  \<open>last_hidden_state[0]\<close> as its number of columns and its rows), and the constant
  \<open>BERT_FEATURE_DIM\<close> of \<open>Utils/Constants.py\<close>.
\<close>

record models =
  load_audio :: "pystr \<Rightarrow> error + f32 list"
  soxr_resample :: "f32 list \<Rightarrow> error + f32 list"
  load_cn_hubert :: "error option"
  cn_hubert_run :: "f32 list list \<Rightarrow> error + f32 list list list"
  bert_last_hidden_state :: "pystr \<Rightarrow> error + nat \<times> f32 list list"
  BERT_FEATURE_DIM :: nat

text \<open>An attribute that \<open>__init__\<close> declares \<open>Optional\<close>: not yet set, \<open>None\<close>, or an
  array.\<close>

datatype 'a attr = Absent | PyNone | Val 'a

text \<open>The attributes of a \<open>ReferenceAudio\<close> object; \<open>text\<close> and \<open>language\<close> are absent
  until assigned, \<open>initialized\<close> is \<open>hasattr(self, '_initialized')\<close>.\<close>

record ref_instance =
  text_attr :: "pystr option"
  language :: "pystr option"
  phonemes_seq :: "int list list attr"
  text_bert :: "f32 list list attr"
  audio_32k :: "f32 list attr"
  ssl_content :: "f32 list list list attr"
  initialized :: bool

definition bare_instance :: ref_instance where
  "bare_instance =
     \<lparr> text_attr = None, language = None, phonemes_seq = Absent, text_bert = Absent,
       audio_32k = Absent, ssl_content = Absent, initialized = False \<rparr>"

text \<open>What a call of a collaborator or of a phonemizer leaves in the log of the state;
  the log is how the model says that something was computed.\<close>

datatype event =
    Phonemized pystr pystr
  | BertRun pystr
  | AudioLoaded pystr
  | Resampled
  | HubertLoaded
  | HubertRun

type_synonym addr = nat

text \<open>
  The state of the process: the class attribute \<open>_prompt_cache\<close>, whose values are
  references to objects, the objects by address, the next free address, whether
  \<open>model_manager.cn_hubert\<close> is loaded, and the log.
\<close>

record state =
  prompt_cache :: "addr lru_cache"
  heap :: "addr \<rightharpoonup> ref_instance"
  next_addr :: addr
  cn_hubert :: bool
  calls :: "event list"

definition initial_state :: "nat \<Rightarrow> state" where
  "initial_state n =
     \<lparr> prompt_cache = lru_empty n, heap = Map.empty, next_addr = 0, cn_hubert = False,
       calls = [] \<rparr>"

definition update_instance :: "addr \<Rightarrow> (ref_instance \<Rightarrow> ref_instance) \<Rightarrow> state \<Rightarrow> state" where
  "update_instance a f s = s\<lparr>heap := (heap s)(a := map_option f (heap s a))\<rparr>"

definition log_call :: "event \<Rightarrow> state \<Rightarrow> state" where
  "log_call e s = s\<lparr>calls := calls s @ [e]\<rparr>"

definition lang_zh :: pystr where "lang_zh = [122, 104]"
definition lang_ja :: pystr where "lang_ja = [106, 97]"

text \<open>\<open>np.array([ids], dtype=np.int64)\<close>: one row; an id outside the 64-bit range raises
  \<open>OverflowError\<close>.\<close>

definition int64_row :: "int list \<Rightarrow> error + int list list" where
  "int64_row ids =
     (if list_all (\<lambda>i. - (2 ^ 63) \<le> i \<and> i < 2 ^ 63) ids then Inr [ids]
      else Inl OverflowError)"

text \<open>\<open>self.phonemes_seq.shape[1]\<close>.\<close>

definition phonemes_shape1 :: "ref_instance \<Rightarrow> error + nat" where
  "phonemes_shape1 inst =
     (case phonemes_seq inst of
        Val (row # _) \<Rightarrow> Inr (length row)
      | Val [] \<Rightarrow> Inl IndexError
      | _ \<Rightarrow> Inl AttributeError)"

text \<open>\<open>_extract_bert_features\<close>: the rows of the model are cut to the length of the
  phoneme sequence or padded with rows of zeros; \<open>np.concatenate\<close> raises \<open>ValueError\<close>
  when the two blocks differ in their number of columns.\<close>

definition extract_bert_features ::
  "models \<Rightarrow> addr \<Rightarrow> pystr \<Rightarrow> state \<Rightarrow> (error + f32 list list) \<times> state" where
  "extract_bert_features M self t s =
     (let s1 = log_call (BertRun t) s in
      case bert_last_hidden_state M t of
        Inl e \<Rightarrow> (Inl e, s1)
      | Inr (columns, features) \<Rightarrow>
          (case heap s1 self of
             None \<Rightarrow> (Inl AttributeError, s1)
           | Some inst \<Rightarrow>
               (case phonemes_shape1 inst of
                  Inl e \<Rightarrow> (Inl e, s1)
                | Inr target_len \<Rightarrow>
                    if target_len \<le> length features then (Inr (take target_len features), s1)
                    else if columns = BERT_FEATURE_DIM M
                    then (Inr (features
                               @ replicate (target_len - length features)
                                   (replicate (BERT_FEATURE_DIM M) 0)), s1)
                    else (Inl ValueError, s1))))"

text \<open>\<open>set_text\<close>: the text and the language are assigned first, then the phoneme ids
  and the semantic features.\<close>

definition set_text ::
  "unicode_db \<Rightarrow> collab \<Rightarrow> models \<Rightarrow> addr \<Rightarrow> pystr \<Rightarrow> pystr \<Rightarrow> state
   \<Rightarrow> (error + unit) \<times> state" where
  "set_text U C M self prompt_text lang s =
     (let s1 = update_instance self
                 (\<lambda>i. i\<lparr>text_attr := Some prompt_text, language := Some lang\<rparr>) s;
          s2 = log_call (Phonemized lang prompt_text) s1
      in if lang = lang_zh then
           (case chinese_to_phones U C prompt_text of
              Inl e \<Rightarrow> (Inl e, s2)
            | Inr ids \<Rightarrow>
                (case int64_row ids of
                   Inl e \<Rightarrow> (Inl e, s2)
                 | Inr row \<Rightarrow>
                     (let s3 = update_instance self (\<lambda>i. i\<lparr>phonemes_seq := Val row\<rparr>) s2 in
                      case extract_bert_features M self prompt_text s3 of
                        (Inl e, s4) \<Rightarrow> (Inl e, s4)
                      | (Inr features, s4) \<Rightarrow>
                          (Inr (), update_instance self
                                     (\<lambda>i. i\<lparr>text_bert := Val features\<rparr>) s4))))
         else
           (case japanese_to_phones U C prompt_text of
              Inl e \<Rightarrow> (Inl e, s2)
            | Inr ids \<Rightarrow>
                (case int64_row ids of
                   Inl e \<Rightarrow> (Inl e, s2)
                 | Inr row \<Rightarrow>
                     (let s3 = update_instance self (\<lambda>i. i\<lparr>phonemes_seq := Val row\<rparr>) s2 in
                      case heap s3 self of
                        None \<Rightarrow> (Inl AttributeError, s3)
                      | Some inst \<Rightarrow>
                          (case phonemes_shape1 inst of
                             Inl e \<Rightarrow> (Inl e, s3)
                           | Inr n \<Rightarrow>
                               (Inr (), update_instance self
                                          (\<lambda>i. i\<lparr>text_bert :=
                                                  Val (replicate n
                                                        (replicate (BERT_FEATURE_DIM M) 0))\<rparr>)
                                          s3))))))"

text \<open>
  \<open>__new__\<close>: for a key in the cache the cached object is returned, after \<open>set_text\<close>
  when its text or its language differs from the request; \<open>instance.text\<close> raises
  \<open>AttributeError\<close> when the attribute is not set. For a key not in the cache a new
  object without attributes is made and stored under the key.
\<close>

definition ReferenceAudio_new ::
  "unicode_db \<Rightarrow> collab \<Rightarrow> models \<Rightarrow> pystr \<Rightarrow> pystr \<Rightarrow> pystr \<Rightarrow> state
   \<Rightarrow> (error + addr) \<times> state" where
  "ReferenceAudio_new U C M prompt_wav prompt_text lang s =
     (if lru_contains (prompt_cache s) prompt_wav then
        (case lru_get (prompt_cache s) prompt_wav of
           Inl e \<Rightarrow> (Inl e, s)
         | Inr (a, cache) \<Rightarrow>
             (let s1 = s\<lparr>prompt_cache := cache\<rparr> in
              case heap s1 a of
                None \<Rightarrow> (Inl AttributeError, s1)
              | Some inst \<Rightarrow>
                  (case text_attr inst of
                     None \<Rightarrow> (Inl AttributeError, s1)
                   | Some t \<Rightarrow>
                       if t \<noteq> prompt_text \<or> language inst \<noteq> Some lang then
                         (case set_text U C M a prompt_text lang s1 of
                            (Inl e, s2) \<Rightarrow> (Inl e, s2)
                          | (Inr _, s2) \<Rightarrow> (Inr a, s2))
                       else (Inr a, s1))))
      else
        (let a = next_addr s
         in (Inr a, s\<lparr>heap := (heap s)(a \<mapsto> bare_instance),
                       next_addr := Suc a,
                       prompt_cache := lru_set (prompt_cache s) prompt_wav a\<rparr>)))"

text \<open>The audio part of \<open>__init__\<close>, from \<open>load_audio\<close> to \<open>self._initialized = True\<close>.\<close>

definition init_audio ::
  "models \<Rightarrow> addr \<Rightarrow> pystr \<Rightarrow> state \<Rightarrow> (error + unit) \<times> state" where
  "init_audio M self prompt_wav s =
     (let s1 = log_call (AudioLoaded prompt_wav) s in
      case load_audio M prompt_wav of
        Inl e \<Rightarrow> (Inl e, s1)
      | Inr samples \<Rightarrow>
          (let s2 = log_call Resampled
                      (update_instance self (\<lambda>i. i\<lparr>audio_32k := Val samples\<rparr>) s1) in
           case soxr_resample M samples of
             Inl e \<Rightarrow> (Inl e, s2)
           | Inr audio_16k \<Rightarrow>
               (case (if cn_hubert s2 then (None, s2)
                      else (case load_cn_hubert M of
                              Some e \<Rightarrow> (Some e, log_call HubertLoaded s2)
                            | None \<Rightarrow> (None, (log_call HubertLoaded s2)\<lparr>cn_hubert := True\<rparr>))) of
                  (Some e, s3) \<Rightarrow> (Inl e, s3)
                | (None, s3) \<Rightarrow>
                    (let s4 = log_call HubertRun s3 in
                     case cn_hubert_run M [audio_16k] of
                       Inl e \<Rightarrow> (Inl e, s4)
                     | Inr outputs \<Rightarrow>
                         (Inr (), update_instance self
                                    (\<lambda>i. i\<lparr>ssl_content := Val outputs, initialized := True\<rparr>)
                                    s4)))))"

text \<open>\<open>__init__\<close>: nothing for an object that has \<open>_initialized\<close>; else the text
  attributes, \<open>set_text\<close>, and the audio part.\<close>

definition ReferenceAudio_init ::
  "unicode_db \<Rightarrow> collab \<Rightarrow> models \<Rightarrow> addr \<Rightarrow> pystr \<Rightarrow> pystr \<Rightarrow> pystr \<Rightarrow> state
   \<Rightarrow> (error + unit) \<times> state" where
  "ReferenceAudio_init U C M self prompt_wav prompt_text lang s =
     (case heap s self of
        None \<Rightarrow> (Inl AttributeError, s)
      | Some inst \<Rightarrow>
          if initialized inst then (Inr (), s)
          else
            (let s1 = update_instance self
                        (\<lambda>i. i\<lparr>text_attr := Some prompt_text, phonemes_seq := PyNone,
                               text_bert := PyNone, language := Some lang\<rparr>) s in
             case set_text U C M self prompt_text lang s1 of
               (Inl e, s2) \<Rightarrow> (Inl e, s2)
             | (Inr _, s2) \<Rightarrow> init_audio M self prompt_wav s2))"

text \<open>The call \<open>ReferenceAudio(prompt_wav, prompt_text, language)\<close>: \<open>__new__\<close>, then
  \<open>__init__\<close> on the object it returned.\<close>

definition ReferenceAudio ::
  "unicode_db \<Rightarrow> collab \<Rightarrow> models \<Rightarrow> pystr \<Rightarrow> pystr \<Rightarrow> pystr \<Rightarrow> state
   \<Rightarrow> (error + addr) \<times> state" where
  "ReferenceAudio U C M prompt_wav prompt_text lang s =
     (case ReferenceAudio_new U C M prompt_wav prompt_text lang s of
        (Inl e, s1) \<Rightarrow> (Inl e, s1)
      | (Inr a, s1) \<Rightarrow>
          (case ReferenceAudio_init U C M a prompt_wav prompt_text lang s1 of
             (Inl e, s2) \<Rightarrow> (Inl e, s2)
           | (Inr _, s2) \<Rightarrow> (Inr a, s2)))"

definition clear_cache :: "state \<Rightarrow> state" where
  "clear_cache s = s\<lparr>prompt_cache := lru_clear (prompt_cache s)\<rparr>"

text \<open>The phonemizer that \<open>set_text\<close> calls for a language.\<close>

definition to_phones :: "unicode_db \<Rightarrow> collab \<Rightarrow> pystr \<Rightarrow> pystr \<Rightarrow> error + int list" where
  "to_phones U C lang t =
     (if lang = lang_zh then chinese_to_phones U C t else japanese_to_phones U C t)"


section \<open>Stand-in collaborators for evaluating examples\<close>

text \<open>
  A front-end that answers every segment with the five labels of the reading \<open>kan\<close>
  (silence, k, a, N, silence; the fields A, E and F of the label grammar kept):
  \<^verbatim>\<open>xx^xx-sil+k=a/A:xx+xx+xx/E:xx_xx!xx_xx-xx/F:xx_xx\<close>,
  \<^verbatim>\<open>xx^sil-k+a=N/A:0+1+2/E:xx_xx!xx_xx-xx/F:2_1\<close>,
  \<^verbatim>\<open>sil^k-a+N=sil/A:0+1+2/E:xx_xx!xx_xx-xx/F:2_1\<close>,
  \<^verbatim>\<open>k^a-N+sil=xx/A:1+2+1/E:xx_xx!xx_xx-xx/F:2_1\<close>,
  \<^verbatim>\<open>a^N-sil+xx=xx/A:xx+xx+xx/E:2_1!0_xx-xx/F:xx_xx\<close>;
  a romanization engine that answers every text with the one syllable \<open>han4\<close>, cut into
  the initial \<open>h\<close> and the final \<open>an\<close>; and a symbol table of seven symbols.
\<close>

definition kan_labels :: "pystr list" where
  "kan_labels =
     [ [120, 120, 94, 120, 120, 45, 115, 105, 108, 43, 107, 61, 97, 47, 65, 58, 120, 120,
        43, 120, 120, 43, 120, 120, 47, 69, 58, 120, 120, 95, 120, 120, 33, 120, 120, 95,
        120, 120, 45, 120, 120, 47, 70, 58, 120, 120, 95, 120, 120],
       [120, 120, 94, 115, 105, 108, 45, 107, 43, 97, 61, 78, 47, 65, 58, 48, 43, 49, 43,
        50, 47, 69, 58, 120, 120, 95, 120, 120, 33, 120, 120, 95, 120, 120, 45, 120, 120,
        47, 70, 58, 50, 95, 49],
       [115, 105, 108, 94, 107, 45, 97, 43, 78, 61, 115, 105, 108, 47, 65, 58, 48, 43, 49,
        43, 50, 47, 69, 58, 120, 120, 95, 120, 120, 33, 120, 120, 95, 120, 120, 45, 120,
        120, 47, 70, 58, 50, 95, 49],
       [107, 94, 97, 45, 78, 43, 115, 105, 108, 61, 120, 120, 47, 65, 58, 49, 43, 50, 43,
        49, 47, 69, 58, 120, 120, 95, 120, 120, 33, 120, 120, 95, 120, 120, 45, 120, 120,
        47, 70, 58, 50, 95, 49],
       [97, 94, 78, 45, 115, 105, 108, 43, 120, 120, 61, 120, 120, 47, 65, 58, 120, 120,
        43, 120, 120, 43, 120, 120, 47, 69, 58, 50, 95, 49, 33, 48, 95, 120, 120, 45, 120,
        120, 47, 70, 58, 120, 120, 95, 120, 120] ]"

definition sample_symbols :: "(pystr \<times> int) list" where
  "sample_symbols =
     [ ([85, 78, 75], 0), ([107], 1), ([97], 2), ([78], 3), ([93], 4), ([104], 5),
       ([97, 110, 52], 6) ]"

definition sample_collab :: collab where
  "sample_collab =
     \<lparr> make_label = (\<lambda>t. Inr kan_labels),
       openjtalk_g2p = (\<lambda>t. Inr [107, 32, 97, 32, 78]),
       pinyin = (\<lambda>t. Inr [[[104, 97, 110, 52]]]),
       get_initials = take 1,
       get_finals = drop 1,
       symbol_to_id_v2 = map_of sample_symbols \<rparr>"

subsection \<open>A cached entry for evaluating examples\<close>

text \<open>
  The stand-in front-end, failing on the segment of the one kana U+3042; stand-in audio
  collaborators with a feature width of 2; the key \<open>a.wav\<close>; and the state after the one
  request \<open>ReferenceAudio("a.wav", "\<dots>", "ja")\<close> for the text of the kana U+304B in a
  fresh process with a cache of capacity 10.
\<close>

definition flaky_collab :: collab where
  "flaky_collab =
     sample_collab\<lparr>make_label :=
       (\<lambda>t. if t = [0x3042] then Inl (CollaboratorFailure [0x3042]) else Inr kan_labels)\<rparr>"

definition sample_models :: models where
  "sample_models =
     \<lparr> load_audio = (\<lambda>path. Inr [1, 2, 3, 4]),
       soxr_resample = (\<lambda>samples. Inr (take 2 samples)),
       load_cn_hubert = None,
       cn_hubert_run = (\<lambda>batch. Inr [[[7]]]),
       bert_last_hidden_state = (\<lambda>t. Inr (2, [[5, 5]])),
       BERT_FEATURE_DIM = 2 \<rparr>"

definition sample_key :: pystr where
  "sample_key = [97, 46, 119, 97, 118]"

definition cached_instance :: ref_instance where
  "cached_instance =
     \<lparr> text_attr = Some [0x304B], language = Some lang_ja,
       phonemes_seq = Val [[1, 2, 4, 3]],
       text_bert = Val [[0, 0], [0, 0], [0, 0], [0, 0]],
       audio_32k = Val [1, 2, 3, 4], ssl_content = Val [[[7]]], initialized = True \<rparr>"

definition cached_state :: state where
  "cached_state =
     \<lparr> prompt_cache = \<lparr> capacity = 10, entries = [(sample_key, 0)] \<rparr>,
       heap = [0 \<mapsto> cached_instance],
       next_addr = 1, cn_hubert = True,
       calls = [Phonemized lang_ja [0x304B], AudioLoaded sample_key, Resampled,
                HubertLoaded, HubertRun] \<rparr>"


text \<open>
  Audio collaborators whose encoder raises, and audio collaborators whose loader finds
  other samples under the key; the state after the one request for the text of the kana
  U+304B that ended in the encoder's exception (the entry has its text fields and its
  waveform, but neither an embedding nor \<open>_initialized\<close>); and the state after the one
  request for the text of the kana U+3042 that ended in the front-end's exception.
\<close>

definition deaf_models :: models where
  "deaf_models = sample_models\<lparr>cn_hubert_run := (\<lambda>batch. Inl (CollaboratorFailure []))\<rparr>"

definition retaken_models :: models where
  "retaken_models = sample_models\<lparr>load_audio := (\<lambda>path. Inr [9, 9, 9, 9])\<rparr>"

definition half_instance :: ref_instance where
  "half_instance =
     \<lparr> text_attr = Some [0x304B], language = Some lang_ja,
       phonemes_seq = Val [[1, 2, 4, 3]],
       text_bert = Val [[0, 0], [0, 0], [0, 0], [0, 0]],
       audio_32k = Val [1, 2, 3, 4], ssl_content = Absent, initialized = False \<rparr>"

definition half_state :: state where
  "half_state =
     \<lparr> prompt_cache = \<lparr> capacity = 10, entries = [(sample_key, 0)] \<rparr>,
       heap = [0 \<mapsto> half_instance],
       next_addr = 1, cn_hubert = True,
       calls = [Phonemized lang_ja [0x304B], AudioLoaded sample_key, Resampled,
                HubertLoaded, HubertRun] \<rparr>"

definition failed_instance :: ref_instance where
  "failed_instance =
     \<lparr> text_attr = Some [0x3042], language = Some lang_ja,
       phonemes_seq = PyNone, text_bert = PyNone,
       audio_32k = Absent, ssl_content = Absent, initialized = False \<rparr>"

definition failed_state :: state where
  "failed_state =
     \<lparr> prompt_cache = \<lparr> capacity = 10, entries = [(sample_key, 0)] \<rparr>,
       heap = [0 \<mapsto> failed_instance],
       next_addr = 1, cn_hubert = False,
       calls = [Phonemized lang_ja [0x3042]] \<rparr>"


section \<open>Properties of the sentence chunking\<close>

lemma strip_empty_iff: "strip U s = [] \<longleftrightarrow> (\<forall>c \<in> set s. isspace U c)"
proof
  assume "strip U s = []"
  then have "dropWhile (isspace U) (rev (dropWhile (isspace U) s)) = []"
    by (simp add: strip_def)
  then have "\<forall>c \<in> set (dropWhile (isspace U) s). isspace U c"
    by simp
  then have "dropWhile (isspace U) s = []"
    by (metis dropWhile_eq_Nil_conv dropWhile_idem)
  then show "\<forall>c \<in> set s. isspace U c"
    by simp
next
  assume all_space: "\<forall>c \<in> set s. isspace U c"
  then have dropped: "dropWhile (isspace U) s = []"
    by simp
  show "strip U s = []"
    unfolding strip_def dropped by simp
qed

lemma strip_no_space:
  assumes "\<forall>c \<in> set s. \<not> isspace U c"
  shows "strip U s = s"
proof -
  have at_start: "dropWhile (isspace U) s = s"
    using assms by (cases s) auto
  have at_end: "dropWhile (isspace U) (rev s) = rev s"
    using assms by (cases s rule: rev_cases) auto
  show ?thesis
    by (simp add: strip_def at_start at_end)
qed

lemma concat_split_after_terminators: "concat (split_after_terminators t) = t"
  by (induction t) (auto split: list.splits)

lemma set_split_after_terminators:
  "p \<in> set (split_after_terminators t) \<Longrightarrow> set p \<subseteq> set t"
  using concat_split_after_terminators [of t] by (metis Sup_upper image_eqI set_concat)

lemma concat_map_filter_nonempty:
  "concat (map f (filter (\<lambda>s. f s \<noteq> []) xs)) = concat (map f xs)"
  by (induction xs) auto

lemma concat_raw_sentences:
  "concat (raw_sentences U t) = concat (map (strip U) (split_after_terminators t))"
  by (simp add: raw_sentences_def concat_map_filter_nonempty)

lemma raw_sentences_nonempty: "[] \<notin> set (raw_sentences U t)"
  by (auto simp: raw_sentences_def)

lemma concat_merge_short: "concat (merge_short fs ss) = concat fs @ concat ss"
proof (induction fs ss rule: merge_short.induct)
  case (1 fs)
  then show ?case by simp
next
  case (2 fs s rest)
  show ?case
  proof (cases "fs \<noteq> [] \<and> get_valid_text_length s < MIN_SENTENCE_LENGTH")
    case True
    then have "concat (butlast fs @ [last fs @ s]) = concat fs @ s"
      by (cases fs rule: rev_cases) auto
    with True 2 show ?thesis by simp
  next
    case False
    with 2 show ?thesis by auto
  qed
qed

lemma merge_short_nonempty:
  "[] \<notin> set fs \<Longrightarrow> [] \<notin> set ss \<Longrightarrow> [] \<notin> set (merge_short fs ss)"
proof (induction fs ss rule: merge_short.induct)
  case (1 fs)
  then show ?case by simp
next
  case (2 fs s rest)
  show ?case
  proof (cases "fs \<noteq> [] \<and> get_valid_text_length s < MIN_SENTENCE_LENGTH")
    case True
    have "[] \<notin> set (butlast fs @ [last fs @ s])"
      using "2.prems" True by (auto dest: in_set_butlastD)
    with True 2 show ?thesis by simp
  next
    case False
    with 2 show ?thesis by auto
  qed
qed

lemma blank_pieces_blank_text:
  assumes "raw_sentences U t = []"
  shows "strip U t = []"
proof -
  have "\<forall>p \<in> set (split_after_terminators t). strip U p = []"
    using assms by (auto simp: raw_sentences_def filter_empty_conv)
  then have "\<forall>p \<in> set (split_after_terminators t). \<forall>c \<in> set p. isspace U c"
    by (simp add: strip_empty_iff)
  then have "\<forall>c \<in> set (concat (split_after_terminators t)). isspace U c"
    by auto
  then show ?thesis
    by (simp add: concat_split_after_terminators strip_empty_iff)
qed

lemma concat_split_chinese_text:
  "concat (split_chinese_text U t) = concat (raw_sentences U t)"
proof (cases "t = []")
  case True
  then show ?thesis by (simp add: split_chinese_text_def raw_sentences_def strip_def)
next
  case False
  show ?thesis
  proof (cases "raw_sentences U t = []")
    case True
    with False blank_pieces_blank_text [OF True] show ?thesis
      by (simp add: split_chinese_text_def)
  next
    case False
    with \<open>t \<noteq> []\<close> show ?thesis
      by (simp add: split_chinese_text_def concat_merge_short)
  qed
qed

lemma split_chinese_text_nonempty: "[] \<notin> set (split_chinese_text U t)"
proof (cases "t = [] \<or> raw_sentences U t = []")
  case True
  then show ?thesis
    using blank_pieces_blank_text [of U t] by (auto simp: split_chinese_text_def)
next
  case False
  then show ?thesis
    by (simp add: split_chinese_text_def merge_short_nonempty raw_sentences_nonempty)
qed

text \<open>
  Claim C6 as stated: concatenating the chunks of the sentence-chunking split, the merge
  step ignored, gives back the original text, and no chunk is empty. It fails on the
  text \<open>" a"\<close> (a space, then the letter a): the comprehension strips every piece, so
  the chunks concatenate to \<open>"a"\<close>, with or without the merge loop. Read before the
  stripping, the split of a text that ends in a terminator (here the single ideographic
  full stop) contains an empty chunk.
\<close>

theorem split_lossless_counterexample:
  "concat (raw_sentences sample_db [32, 97]) \<noteq> [32, 97]
   \<and> concat (split_chinese_text sample_db [32, 97]) \<noteq> [32, 97]
   \<and> [] \<in> set (split_after_terminators [0x3002])"
  by (simp add: raw_sentences_def split_chinese_text_def strip_def sample_db_def
      sample_isspace_def SENTENCE_TERMINATORS_def get_valid_text_length_def
      MIN_SENTENCE_LENGTH_def VALID_CHAR_def)

text \<open>
  Claim C6, amended: for every input text, concatenating the chunks of
  \<open>split_chinese_text\<close> (with the merge step or without it) gives the concatenation of
  the pieces that end at the sentence terminators, each piece with its leading and
  trailing whitespace removed; the pieces themselves concatenate to the original text,
  so the chunks reconstruct the text exactly when it holds no whitespace character; and
  no chunk of the output has zero length.
\<close>

theorem split_chinese_text_concat:
  "concat (split_chinese_text U t) = concat (map (strip U) (split_after_terminators t))
   \<and> concat (raw_sentences U t) = concat (map (strip U) (split_after_terminators t))
   \<and> concat (split_after_terminators t) = t
   \<and> ((\<forall>c \<in> set t. \<not> isspace U c) \<longrightarrow> concat (split_chinese_text U t) = t)
   \<and> [] \<notin> set (split_chinese_text U t)
   \<and> [] \<notin> set (raw_sentences U t)"
proof -
  have pieces:
    "concat (split_chinese_text U t) = concat (map (strip U) (split_after_terminators t))"
    by (simp add: concat_split_chinese_text concat_raw_sentences)
  have lossless: "concat (split_chinese_text U t) = t" if "\<forall>c \<in> set t. \<not> isspace U c"
  proof -
    have "\<forall>p \<in> set (split_after_terminators t). strip U p = p"
      using that set_split_after_terminators by (blast intro: strip_no_space)
    then have "map (strip U) (split_after_terminators t) = split_after_terminators t"
      by (simp add: map_idI)
    with pieces show ?thesis
      by (simp add: concat_split_after_terminators)
  qed
  show ?thesis
    using pieces lossless
    by (simp add: concat_raw_sentences concat_split_after_terminators
        split_chinese_text_nonempty raw_sentences_nonempty)
qed

theorem split_chinese_text_concat_witness:
  "\<not> isspace sample_db 97 \<and> \<not> isspace sample_db 0x3002 \<and> \<not> isspace sample_db 98
   \<and> concat (split_chinese_text sample_db [97, 0x3002, 98]) = [97, 0x3002, 98]
   \<and> [] \<notin> set (split_chinese_text sample_db [97, 0x3002, 98])"
proof -
  have no_space: "\<forall>c \<in> set [97, 0x3002, 98]. \<not> isspace sample_db c"
    by (simp add: sample_db_def sample_isspace_def)
  have letters:
    "\<not> isspace sample_db 97 \<and> \<not> isspace sample_db 0x3002 \<and> \<not> isspace sample_db 98"
    by (simp add: sample_db_def sample_isspace_def)
  have chunks:
    "concat (split_chinese_text sample_db [97, 0x3002, 98]) = [97, 0x3002, 98]
     \<and> [] \<notin> set (split_chinese_text sample_db [97, 0x3002, 98])"
    using split_chinese_text_concat [of sample_db "[97, 0x3002, 98]"] no_space by blast
  from letters chunks show ?thesis by blast
qed


section \<open>Properties of the encoding\<close>

lemma phones_to_ids_unk:
  assumes "symbol_to_id_v2 C sym_UNK = Some unk"
  shows "phones_to_ids C phones =
         Inr (map (\<lambda>ph. case symbol_to_id_v2 C ph of Some i \<Rightarrow> i | None \<Rightarrow> unk) phones)"
  using assms unfolding phones_to_ids_def valid_phones_def
  by (induction phones) (auto split: option.splits)

text \<open>
  Claim C9: for every symbol sequence a phonemizer produces, the encoding maps each
  symbol to its id and every symbol outside the vocabulary to the id of the reserved
  symbol \<open>UNK\<close>; it raises nothing, and the ids are as many as the symbols. The symbol
  table is a parameter; that it holds the reserved symbol is the hypothesis. Both
  \<open>japanese_to_phones\<close> and \<open>chinese_to_phones\<close> encode what their phonemizer returned.
\<close>

theorem encoding_never_fails:
  assumes "symbol_to_id_v2 C sym_UNK = Some unk"
  shows "(\<exists>ids. phones_to_ids C phones = Inr ids
            \<and> length ids = length phones
            \<and> ids = map (\<lambda>ph. case symbol_to_id_v2 C ph of Some k \<Rightarrow> k | None \<Rightarrow> unk) phones)
         \<and> (g2p U C t True = Inr phones \<longrightarrow>
              japanese_to_phones U C t = phones_to_ids C phones)
         \<and> (ChineseG2P_g2p U C t = Inr phones \<longrightarrow>
              chinese_to_phones U C t = phones_to_ids C phones)"
  by (simp add: phones_to_ids_unk [OF assms] japanese_to_phones_def chinese_to_phones_def)

theorem encoding_never_fails_witness:
  "symbol_to_id_v2 sample_collab sym_UNK = Some 0
   \<and> phones_to_ids sample_collab [[97], [122, 122], [107]] = Inr [2, 0, 1]"
proof -
  have unk: "symbol_to_id_v2 sample_collab sym_UNK = Some 0"
    by (simp add: sample_collab_def sample_symbols_def sym_UNK_def)
  have "phones_to_ids sample_collab [[97], [122, 122], [107]] =
        Inr (map (\<lambda>ph. case symbol_to_id_v2 sample_collab ph of Some k \<Rightarrow> k | None \<Rightarrow> 0)
               [[97], [122, 122], [107]])"
    using encoding_never_fails [OF unk, of "[[97], [122, 122], [107]]"] by blast
  then have "phones_to_ids sample_collab [[97], [122, 122], [107]] = Inr [2, 0, 1]"
    by (simp add: sample_collab_def sample_symbols_def)
  with unk show ?thesis by simp
qed

section \<open>Properties of the label-based derivation\<close>

lemma prosody_loop_chunks:
  "prosody_loop U labels n rest acc = Inr phones \<Longrightarrow>
   \<exists>chunks. length chunks = length rest \<and> phones = acc @ concat chunks
     \<and> (\<forall>k < length rest. label_phones U labels (n + k) (rest ! k) = Inr (chunks ! k))"
proof (induction rest arbitrary: n acc)
  case Nil
  then show ?case by simp
next
  case (Cons lab rest)
  from Cons.prems obtain new where new: "label_phones U labels n lab = Inr new"
    and loop: "prosody_loop U labels (Suc n) rest (acc @ new) = Inr phones"
    by (auto split: sum.splits)
  from Cons.IH [OF loop] obtain chunks where len: "length chunks = length rest"
    and phones: "phones = (acc @ new) @ concat chunks"
    and each: "\<forall>k < length rest. label_phones U labels (Suc n + k) (rest ! k) = Inr (chunks ! k)"
    by blast
  have "\<forall>k < length (lab # rest).
          label_phones U labels (n + k) ((lab # rest) ! k) = Inr ((new # chunks) ! k)"
    using new each by (auto simp: nth_Cons split: nat.splits)
  with len phones show ?case
    by (intro exI [of _ "new # chunks"]) simp
qed

lemma silence_label_phones:
  assumes "phone_of_label U lab = Inr sym_sil"
  shows "label_phones U labels n lab =
         (if n = 0 then Inr [sym_start]
          else if Suc n = length labels then
            (case numeric_feature_by_regex U E3 lab of
               Inl e \<Rightarrow> Inl e
             | Inr e3 \<Rightarrow> Inr [if e3 = 1 then sym_rising else sym_end])
          else Inr [])"
  using assms by (auto simp: label_phones_def)

text \<open>
  Claim C7, amended: in the label-based derivation, for every label stream the result is
  the concatenation of what each label emits; a silence label emits the start marker
  exactly when it is the first label; the last label, when it is silence and not also
  the first label, emits the rising-end marker when the end-tone feature is 1 and the
  plain end marker otherwise; a silence label at any position in between emits nothing;
  and the first and the last element of each segment's result are cut before the result
  is appended to the phonemes.
\<close>

theorem silence_markers:
  assumes labels: "make_label C seg = Inr labels"
    and phones: "prosody_of_labels U labels = Inr phones"
    and seg: "seg \<noteq> []"
  shows "(\<exists>chunks. length chunks = length labels \<and> phones = concat chunks
          \<and> (\<forall>n < length labels. label_phones U labels n (labels ! n) = Inr (chunks ! n))
          \<and> (\<forall>n < length labels. phone_of_label U (labels ! n) = Inr sym_sil \<longrightarrow>
                ((chunks ! n = [sym_start]) = (n = 0))
                \<and> (0 < n \<and> Suc n = length labels \<longrightarrow>
                     chunks ! n = [if numeric_feature_by_regex U E3 (labels ! n) = Inr 1
                                   then sym_rising else sym_end])
                \<and> (0 < n \<and> Suc n < length labels \<longrightarrow> chunks ! n = [])))
         \<and> segment_phones U C True seg = Inr (butlast (tl phones))
         \<and> g2p_loop U C True marks i (seg # rest) acc =
             g2p_loop U C True marks (Suc i) rest
               (acc @ butlast (tl phones) @ mark_after U marks i)"
proof -
  from prosody_loop_chunks [of U labels 0 labels "[]" phones] phones
  obtain chunks where len: "length chunks = length labels"
    and concat: "phones = concat chunks"
    and each: "\<forall>n < length labels. label_phones U labels n (labels ! n) = Inr (chunks ! n)"
    by (auto simp: prosody_of_labels_def)
  have "((chunks ! n = [sym_start]) = (n = 0))
        \<and> (0 < n \<and> Suc n = length labels \<longrightarrow>
             chunks ! n = [if numeric_feature_by_regex U E3 (labels ! n) = Inr 1
                           then sym_rising else sym_end])
        \<and> (0 < n \<and> Suc n < length labels \<longrightarrow> chunks ! n = [])"
    if n: "n < length labels" and sil: "phone_of_label U (labels ! n) = Inr sym_sil" for n
  proof -
    from each n have "label_phones U labels n (labels ! n) = Inr (chunks ! n)"
      by blast
    with silence_label_phones [OF sil, of labels n] show ?thesis
      by (auto simp: sym_start_def sym_rising_def sym_end_def split: if_splits sum.splits)
  qed
  with len concat each have first: "\<exists>chunks. length chunks = length labels \<and> phones = concat chunks
          \<and> (\<forall>n < length labels. label_phones U labels n (labels ! n) = Inr (chunks ! n))
          \<and> (\<forall>n < length labels. phone_of_label U (labels ! n) = Inr sym_sil \<longrightarrow>
                ((chunks ! n = [sym_start]) = (n = 0))
                \<and> (0 < n \<and> Suc n = length labels \<longrightarrow>
                     chunks ! n = [if numeric_feature_by_regex U E3 (labels ! n) = Inr 1
                                   then sym_rising else sym_end])
                \<and> (0 < n \<and> Suc n < length labels \<longrightarrow> chunks ! n = []))"
    by blast
  have cut: "segment_phones U C True seg = Inr (butlast (tl phones))"
    using labels phones seg by (simp add: segment_phones_def pyopenjtalk_g2p_prosody_def)
  from first cut show ?thesis
    by simp
qed

lemma kan_prosody:
  "prosody_of_labels sample_db kan_labels = Inr [[94], [107], [97], [93], [78], [36]]"
  by code_simp

theorem silence_markers_witness:
  "make_label sample_collab [0x304B] = Inr kan_labels
   \<and> prosody_of_labels sample_db kan_labels = Inr [[94], [107], [97], [93], [78], [36]]
   \<and> segment_phones sample_db sample_collab True [0x304B] = Inr [[107], [97], [93], [78]]"
proof -
  have labels: "make_label sample_collab [0x304B] = Inr kan_labels"
    by (simp add: sample_collab_def)
  have seg: "[0x304B] \<noteq> ([] :: pystr)"
    by simp
  from silence_markers [OF labels kan_prosody seg]
  have "segment_phones sample_db sample_collab True [0x304B] =
        Inr (butlast (tl [[94], [107], [97], [93], [78], [36]]))"
    by blast
  with labels kan_prosody show ?thesis
    by simp
qed

text \<open>
  Claim C7 as stated lets the last label, when it is silence, emit an end marker. For the
  stream of the single label \<^verbatim>\<open>x-sil+x!1_\<close>, silence with end-tone feature 1, the label is
  first and last at once; the test for the first label comes first and the stream gives
  the start marker alone, not the rising-end marker.
\<close>

theorem last_silence_counterexample:
  "phone_of_label sample_db [120, 45, 115, 105, 108, 43, 120, 33, 49, 95] = Inr sym_sil
   \<and> numeric_feature_by_regex sample_db E3 [120, 45, 115, 105, 108, 43, 120, 33, 49, 95] = Inr 1
   \<and> prosody_of_labels sample_db [[120, 45, 115, 105, 108, 43, 120, 33, 49, 95]] = Inr [sym_start]
   \<and> sym_start \<noteq> sym_rising"
  by code_simp

section \<open>Properties of the boundary markers\<close>

lemma greedy_plus_then_class:
  "greedy_plus_then P b s = Some g \<Longrightarrow> g \<noteq> [] \<and> list_all P g"
proof (induction s arbitrary: g)
  case Nil
  then show ?case by simp
next
  case (Cons x xs)
  from Cons.prems have x: "P x"
    by (simp split: if_splits)
  show ?case
  proof (cases "greedy_plus_then P b xs")
    case None
    with Cons.prems x have "g = [x]"
      by (cases xs) (simp_all split: if_splits)
    with x show ?thesis by simp
  next
    case (Some g')
    with Cons.prems x have "g = x # g'"
      by simp
    with x Cons.IH [OF Some] show ?thesis by simp
  qed
qed

lemma re_search_Some: "re_search m s = Some g \<Longrightarrow> \<exists>suffix. m suffix = Some g"
proof (induction s)
  case Nil
  then show ?case by (intro exI [of _ "[]"]) simp
next
  case (Cons c cs)
  show ?case
  proof (cases "m (c # cs)")
    case None
    with Cons show ?thesis by simp
  next
    case (Some g')
    with Cons.prems have "g' = g" by simp
    with Some show ?thesis by blast
  qed
qed

lemma feature_absent:
  "re_search (match_feature U rx) s = None \<Longrightarrow> numeric_feature_by_regex U rx s = Inr (- 50)"
  by (simp add: numeric_feature_by_regex_def)

lemma feature_range:
  assumes hyphen: "\<not> isdecimal U 45" and rx: "rx \<noteq> A1"
    and v: "numeric_feature_by_regex U rx s = Inr v"
  shows "v = - 50 \<or> 0 \<le> v"
proof (cases "re_search (match_feature U rx) s")
  case None
  with v show ?thesis by (simp add: numeric_feature_by_regex_def)
next
  case (Some g)
  then obtain suffix where "match_feature U rx suffix = Some g"
    using re_search_Some by blast
  then have "greedy_plus_then (regex_class U rx) (regex_end rx)
               (drop (length (regex_prefix rx)) suffix) = Some g"
    by (simp add: match_feature_def split: if_splits)
  then have cls: "g \<noteq> [] \<and> list_all (regex_class U rx) g"
    by (rule greedy_plus_then_class)
  have "regex_class U rx = isdecimal U"
    using rx by (cases rx) (simp_all add: fun_eq_iff)
  with cls have g: "g \<noteq> []" "list_all (isdecimal U) g"
    by simp_all
  then obtain c cs where c: "g = c # cs" "isdecimal U c"
    by (cases g) auto
  with hyphen have "c \<noteq> 45"
    by auto
  with g c have "py_int U g = Inr (int (digits_value U g))"
    by (simp add: py_int_def)
  with Some v have "v = int (digits_value U g)"
    by (simp add: numeric_feature_by_regex_def)
  then show ?thesis
    by simp
qed

lemma label_phones_phone:
  assumes "phone_of_label U lab = Inr p3" "p3 \<noteq> sym_sil" "p3 \<noteq> sym_pau"
    and "label_phones U labels n lab = Inr out"
  shows "\<exists>a1 a2 a3 f1 a2_next.
           numeric_feature_by_regex U A1 lab = Inr a1
         \<and> numeric_feature_by_regex U A2 lab = Inr a2
         \<and> numeric_feature_by_regex U A3 lab = Inr a3
         \<and> numeric_feature_by_regex U F1 lab = Inr f1
         \<and> numeric_feature_by_regex U A2
               (if Suc n < length labels then labels ! Suc n else []) = Inr a2_next
         \<and> out = p3 # boundary_marker p3 a1 a2 a3 f1 a2_next"
proof -
  obtain a1 where a1: "numeric_feature_by_regex U A1 lab = Inr a1"
    using assms by (cases "numeric_feature_by_regex U A1 lab") (simp_all add: label_phones_def)
  obtain a2 where a2: "numeric_feature_by_regex U A2 lab = Inr a2"
    using assms a1 by (cases "numeric_feature_by_regex U A2 lab") (simp_all add: label_phones_def)
  obtain a3 where a3: "numeric_feature_by_regex U A3 lab = Inr a3"
    using assms a1 a2
    by (cases "numeric_feature_by_regex U A3 lab") (simp_all add: label_phones_def)
  obtain f1 where f1: "numeric_feature_by_regex U F1 lab = Inr f1"
    using assms a1 a2 a3
    by (cases "numeric_feature_by_regex U F1 lab") (simp_all add: label_phones_def)
  obtain a2_next where a2_next:
    "numeric_feature_by_regex U A2
       (if Suc n < length labels then labels ! Suc n else []) = Inr a2_next"
    using assms a1 a2 a3 f1
    by (cases "numeric_feature_by_regex U A2
                 (if Suc n < length labels then labels ! Suc n else [])")
       (simp_all add: label_phones_def)
  have "out = p3 # boundary_marker p3 a1 a2 a3 f1 a2_next"
    using assms a1 a2 a3 f1 a2_next by (simp add: label_phones_def)
  with a1 a2 a3 f1 a2_next show ?thesis
    by blast
qed

text \<open>
  Claim C8, amended: for every label that is neither silence nor pause the phone is
  followed by at most one boundary marker, the first of accent-phrase-final, pitch-fall
  and pitch-rise whose condition holds; a feature whose pattern is absent from the label
  is \<open>-50\<close>; an absent \<open>a3\<close> or an absent \<open>a2\<close> of the next label excludes the
  accent-phrase-final marker, an absent \<open>a1\<close>, \<open>a2\<close> or \<open>a2\<close> of the next label excludes the
  pitch-fall marker, and an absent \<open>a2\<close> or \<open>a2\<close> of the next label excludes the
  pitch-rise marker. (Nothing of the kind holds for an absent \<open>f1\<close>: the test
  \<open>a2 != f1\<close> then holds for every \<open>a2\<close> that is present.) The hyphen is not a decimal
  digit of the character table.
\<close>

theorem boundary_marker_first_match:
  assumes hyphen: "\<not> isdecimal U 45"
    and p3: "phone_of_label U lab = Inr p3" "p3 \<noteq> sym_sil" "p3 \<noteq> sym_pau"
    and out: "label_phones U labels n lab = Inr out"
    and lab_next: "lab_next = (if Suc n < length labels then labels ! Suc n else [])"
  shows "\<exists>a1 a2 a3 f1 a2_next m.
           numeric_feature_by_regex U A1 lab = Inr a1
         \<and> numeric_feature_by_regex U A2 lab = Inr a2
         \<and> numeric_feature_by_regex U A3 lab = Inr a3
         \<and> numeric_feature_by_regex U F1 lab = Inr f1
         \<and> numeric_feature_by_regex U A2 lab_next = Inr a2_next
         \<and> out = p3 # m \<and> length m \<le> 1
         \<and> m = (if a3 = 1 \<and> a2_next = 1 \<and> str_contains p3 str_vowels_N_cl
                 then [sym_accent_phrase]
                 else if a1 = 0 \<and> a2_next = a2 + 1 \<and> a2 \<noteq> f1 then [sym_fall]
                 else if a2 = 1 \<and> a2_next = 2 then [sym_rise]
                 else [])
         \<and> (re_search (match_feature U A1) lab = None \<longrightarrow> a1 = - 50)
         \<and> (re_search (match_feature U A2) lab = None \<longrightarrow> a2 = - 50)
         \<and> (re_search (match_feature U A3) lab = None \<longrightarrow> a3 = - 50)
         \<and> (re_search (match_feature U F1) lab = None \<longrightarrow> f1 = - 50)
         \<and> (re_search (match_feature U A2) lab_next = None \<longrightarrow> a2_next = - 50)
         \<and> (re_search (match_feature U A3) lab = None
              \<or> re_search (match_feature U A2) lab_next = None
              \<longrightarrow> m \<noteq> [sym_accent_phrase])
         \<and> (re_search (match_feature U A1) lab = None
              \<or> re_search (match_feature U A2) lab = None
              \<or> re_search (match_feature U A2) lab_next = None
              \<longrightarrow> m \<noteq> [sym_fall])
         \<and> (re_search (match_feature U A2) lab = None
              \<or> re_search (match_feature U A2) lab_next = None
              \<longrightarrow> m \<noteq> [sym_rise])"
proof -
  from label_phones_phone [OF p3 out] obtain a1 a2 a3 f1 a2_next
    where a1: "numeric_feature_by_regex U A1 lab = Inr a1"
      and a2: "numeric_feature_by_regex U A2 lab = Inr a2"
      and a3: "numeric_feature_by_regex U A3 lab = Inr a3"
      and f1: "numeric_feature_by_regex U F1 lab = Inr f1"
      and a2_next: "numeric_feature_by_regex U A2 lab_next = Inr a2_next"
      and out_eq: "out = p3 # boundary_marker p3 a1 a2 a3 f1 a2_next"
    unfolding lab_next by blast
  define cond1 where "cond1 \<longleftrightarrow> a3 = 1 \<and> a2_next = 1 \<and> str_contains p3 str_vowels_N_cl"
  define cond2 where "cond2 \<longleftrightarrow> a1 = 0 \<and> a2_next = a2 + 1 \<and> a2 \<noteq> f1"
  define cond3 where "cond3 \<longleftrightarrow> a2 = 1 \<and> a2_next = 2"
  define m where "m = boundary_marker p3 a1 a2 a3 f1 a2_next"
  have m: "m = (if cond1 then [sym_accent_phrase] else if cond2 then [sym_fall]
                else if cond3 then [sym_rise] else [])"
    by (simp add: m_def boundary_marker_def cond1_def cond2_def cond3_def)
  have len: "length m \<le> 1"
    by (simp add: m)
  have r2: "a2 = - 50 \<or> 0 \<le> a2"
    using feature_range [OF hyphen _ a2] by simp
  have r2n: "a2_next = - 50 \<or> 0 \<le> a2_next"
    using feature_range [OF hyphen _ a2_next] by simp
  have s1: "re_search (match_feature U A1) lab = None \<longrightarrow> a1 = - 50"
    using a1 by (auto dest: feature_absent)
  have s2: "re_search (match_feature U A2) lab = None \<longrightarrow> a2 = - 50"
    using a2 by (auto dest: feature_absent)
  have s3: "re_search (match_feature U A3) lab = None \<longrightarrow> a3 = - 50"
    using a3 by (auto dest: feature_absent)
  have s4: "re_search (match_feature U F1) lab = None \<longrightarrow> f1 = - 50"
    using f1 by (auto dest: feature_absent)
  have s5: "re_search (match_feature U A2) lab_next = None \<longrightarrow> a2_next = - 50"
    using a2_next by (auto dest: feature_absent)
  have distinct: "sym_accent_phrase \<noteq> sym_fall" "sym_accent_phrase \<noteq> sym_rise"
    "sym_fall \<noteq> sym_rise" "sym_fall \<noteq> sym_accent_phrase" "sym_rise \<noteq> sym_accent_phrase"
    "sym_rise \<noteq> sym_fall"
    by (simp_all add: sym_accent_phrase_def sym_fall_def sym_rise_def)
  have no_accent: "re_search (match_feature U A3) lab = None
              \<or> re_search (match_feature U A2) lab_next = None
              \<longrightarrow> m \<noteq> [sym_accent_phrase]"
  proof
    assume "re_search (match_feature U A3) lab = None
              \<or> re_search (match_feature U A2) lab_next = None"
    with s3 s5 have "\<not> cond1"
      by (auto simp: cond1_def)
    then show "m \<noteq> [sym_accent_phrase]"
      by (simp add: m distinct)
  qed
  have no_fall: "re_search (match_feature U A1) lab = None
              \<or> re_search (match_feature U A2) lab = None
              \<or> re_search (match_feature U A2) lab_next = None
              \<longrightarrow> m \<noteq> [sym_fall]"
  proof
    assume "re_search (match_feature U A1) lab = None
              \<or> re_search (match_feature U A2) lab = None
              \<or> re_search (match_feature U A2) lab_next = None"
    with s1 s2 s5 r2 r2n have "\<not> cond2"
      by (auto simp: cond2_def)
    then show "m \<noteq> [sym_fall]"
      by (simp add: m distinct)
  qed
  have no_rise: "re_search (match_feature U A2) lab = None
              \<or> re_search (match_feature U A2) lab_next = None
              \<longrightarrow> m \<noteq> [sym_rise]"
  proof
    assume "re_search (match_feature U A2) lab = None
              \<or> re_search (match_feature U A2) lab_next = None"
    with s2 s5 have "\<not> cond3"
      by (auto simp: cond3_def)
    then show "m \<noteq> [sym_rise]"
      by (simp add: m distinct)
  qed
  have out_m: "out = p3 # m"
    by (simp add: out_eq m_def)
  have m_spelled: "m = (if a3 = 1 \<and> a2_next = 1 \<and> str_contains p3 str_vowels_N_cl
                 then [sym_accent_phrase]
                 else if a1 = 0 \<and> a2_next = a2 + 1 \<and> a2 \<noteq> f1 then [sym_fall]
                 else if a2 = 1 \<and> a2_next = 2 then [sym_rise]
                 else [])"
    by (simp add: m_def boundary_marker_def)
  show ?thesis
    apply (rule exI [of _ a1], rule exI [of _ a2], rule exI [of _ a3], rule exI [of _ f1])
    apply (rule exI [of _ a2_next], rule exI [of _ m])
    apply (intro conjI)
    apply (fact a1 a2 a3 f1 a2_next out_m len m_spelled s1 s2 s3 s4 s5
             no_accent no_fall no_rise)+
    done
qed

lemma kan_label_a:
  "phone_of_label sample_db (kan_labels ! 2) = Inr [97]
   \<and> label_phones sample_db kan_labels 2 (kan_labels ! 2) = Inr [[97], [93]]"
  by code_simp

theorem boundary_marker_first_match_witness:
  "\<not> isdecimal sample_db 45
   \<and> phone_of_label sample_db (kan_labels ! 2) = Inr [97]
   \<and> [97] \<noteq> sym_sil \<and> [97] \<noteq> sym_pau
   \<and> label_phones sample_db kan_labels 2 (kan_labels ! 2) = Inr [[97], [93]]
   \<and> (\<exists>m. [[97], [93]] = ([97] :: pystr) # m \<and> length m \<le> 1)"
proof -
  have hyphen: "\<not> isdecimal sample_db 45"
    by (simp add: sample_db_def)
  have phone: "phone_of_label sample_db (kan_labels ! 2) = Inr [97]"
    and out: "label_phones sample_db kan_labels 2 (kan_labels ! 2) = Inr [[97], [93]]"
    using kan_label_a by simp_all
  have other: "[97] \<noteq> sym_sil" "[97] \<noteq> sym_pau"
    by (simp_all add: sym_sil_def sym_pau_def)
  have marker: "\<exists>m. [[97], [93]] = ([97] :: pystr) # m \<and> length m \<le> 1"
    using boundary_marker_first_match [OF hyphen phone other out refl]
    apply (elim exE conjE)
    apply (rule exI)
    apply (rule conjI; assumption)
    done
  show ?thesis
    by (intro conjI hyphen phone other out marker)
qed

text \<open>
  Claim C8 as stated has the marker decision treat every absent feature as a condition
  that is not met. The label \<^verbatim>\<open>x-a+y/A:0+2+5/\<close> has no field F, so \<open>f1\<close> is \<open>-50\<close>; with
  the next label \<^verbatim>\<open>y-b+z/A:1+3+4/\<close> the features are \<open>a1 = 0\<close>, \<open>a2 = 2\<close>, \<open>a3 = 5\<close> and
  \<open>a2_next = 3\<close>, the test \<open>a2 != f1\<close> holds because \<open>f1\<close> is absent, and the pitch-fall
  marker is emitted; with \<open>f1\<close> present and equal to \<open>a2\<close> no marker is emitted.
\<close>

theorem absent_f1_counterexample:
  "re_search (match_feature sample_db F1) [120, 45, 97, 43, 121, 47, 65, 58, 48, 43, 50, 43, 53, 47]
     = None
   \<and> numeric_feature_by_regex sample_db F1
        [120, 45, 97, 43, 121, 47, 65, 58, 48, 43, 50, 43, 53, 47] = Inr (- 50)
   \<and> label_phones sample_db
        [[120, 45, 97, 43, 121, 47, 65, 58, 48, 43, 50, 43, 53, 47],
         [121, 45, 98, 43, 122, 47, 65, 58, 49, 43, 51, 43, 52, 47]] 0
        [120, 45, 97, 43, 121, 47, 65, 58, 48, 43, 50, 43, 53, 47] = Inr [[97], sym_fall]
   \<and> boundary_marker [97] 0 2 5 (- 50) 3 = [sym_fall]
   \<and> boundary_marker [97] 0 2 5 2 3 = []"
  by code_simp

section \<open>Properties of the Japanese phonemizer\<close>

lemma re_split_chars_nonempty: "re_split_chars P s \<noteq> []"
  by (induction s) (simp_all split: list.splits)

lemma length_re_split_chars:
  "length (re_split_chars P s) = Suc (length (re_findall_chars P s))"
proof (induction s)
  case Nil
  then show ?case by (simp add: re_findall_chars_def)
next
  case (Cons c cs)
  obtain p ps where "re_split_chars P cs = p # ps"
    using re_split_chars_nonempty [of P cs] by (cases "re_split_chars P cs") auto
  with Cons show ?case
    by (simp add: re_findall_chars_def)
qed

lemma concat_splice_split:
  "concat (splice (re_split_chars P s) (re_findall_chars P s)) = s"
proof (induction s)
  case Nil
  then show ?case by (simp add: re_findall_chars_def)
next
  case (Cons c cs)
  obtain p ps where split: "re_split_chars P cs = p # ps"
    using re_split_chars_nonempty [of P cs] by (cases "re_split_chars P cs") auto
  show ?case
  proof (cases "P c")
    case True
    with Cons show ?thesis
      by (simp add: re_findall_chars_def)
  next
    case False
    with Cons split show ?thesis
      by (simp add: re_findall_chars_def)
  qed
qed

lemma re_split_chars_class:
  "seg \<in> set (re_split_chars P s) \<Longrightarrow> c \<in> set seg \<Longrightarrow> \<not> P c"
proof (induction s arbitrary: seg)
  case Nil
  then show ?case by simp
next
  case (Cons x xs)
  obtain p ps where split: "re_split_chars P xs = p # ps"
    using re_split_chars_nonempty [of P xs] by (cases "re_split_chars P xs") auto
  show ?case
  proof (cases "P x")
    case True
    with Cons.prems have "seg = [] \<or> seg \<in> set (re_split_chars P xs)"
      by simp
    with Cons show ?thesis by auto
  next
    case False
    with Cons.prems split have "seg = x # p \<or> seg \<in> set ps"
      by simp
    then show ?thesis
    proof
      assume "seg = x # p"
      with Cons.prems(2) have "c = x \<or> c \<in> set p" by simp
      then show ?thesis
        using False Cons.IH [of p] split by auto
    next
      assume "seg \<in> set ps"
      then show ?thesis
        using Cons.IH [of seg] Cons.prems(2) split by simp
    qed
  qed
qed

lemma re_findall_chars_single:
  "m \<in> set (re_findall_chars P s) \<Longrightarrow> \<exists>c. m = [c] \<and> P c"
  by (auto simp: re_findall_chars_def)

lemma g2p_loop_chunks:
  "g2p_loop U C wp marks i segs acc = Inr out \<Longrightarrow>
   \<exists>phs. length phs = length segs
     \<and> (\<forall>k < length segs. segment_phones U C wp (segs ! k) = Inr (phs ! k))
     \<and> out = acc @ concat (map (\<lambda>k. phs ! k @ mark_after U marks (i + k)) [0..<length segs])"
proof (induction segs arbitrary: i acc)
  case Nil
  then show ?case by simp
next
  case (Cons seg rest)
  from Cons.prems obtain ph where ph: "segment_phones U C wp seg = Inr ph"
    and loop: "g2p_loop U C wp marks (Suc i) rest (acc @ ph @ mark_after U marks i) = Inr out"
    by (cases "segment_phones U C wp seg") simp_all
  from Cons.IH [OF loop] obtain phs where len: "length phs = length rest"
    and each: "\<forall>k < length rest. segment_phones U C wp (rest ! k) = Inr (phs ! k)"
    and out: "out = (acc @ ph @ mark_after U marks i)
                @ concat (map (\<lambda>k. phs ! k @ mark_after U marks (Suc i + k)) [0..<length rest])"
    by blast
  have each': "\<forall>k < length (seg # rest).
                 segment_phones U C wp ((seg # rest) ! k) = Inr ((ph # phs) ! k)"
    using ph each by (simp add: nth_Cons split: nat.splits)
  have shift: "map (\<lambda>k. (ph # phs) ! k @ mark_after U marks (i + k)) [0..<length (seg # rest)]
        = (ph @ mark_after U marks i)
          # map (\<lambda>k. phs ! k @ mark_after U marks (Suc i + k)) [0..<length rest]"
    by (simp add: upt_conv_Cons map_Suc_upt [symmetric] del: upt_Suc)
  show ?case
    apply (rule exI [of _ "ph # phs"])
    apply (intro conjI)
      apply (simp add: len)
     apply (rule each')
    apply (simp only: shift out concat.simps append_assoc)
    done
qed

lemma g2p_loop_total:
  "\<forall>seg \<in> set segs. \<exists>p. segment_phones U C wp seg = Inr p \<Longrightarrow>
   \<exists>out. g2p_loop U C wp marks i segs acc = Inr out"
proof (induction segs arbitrary: i acc)
  case Nil
  then show ?case by simp
next
  case (Cons seg rest)
  then obtain p where "segment_phones U C wp seg = Inr p"
    by auto
  with Cons show ?case
    by simp
qed

lemma segment_phones_prosody:
  assumes "segment_phones U C True seg = Inr p" and "seg \<noteq> []"
  shows "\<exists>labels full. make_label C seg = Inr labels
           \<and> prosody_of_labels U labels = Inr full \<and> p = butlast (tl full)"
proof -
  from assms obtain full where full: "pyopenjtalk_g2p_prosody U C seg = Inr full"
    and p: "p = butlast (tl full)"
    by (cases "pyopenjtalk_g2p_prosody U C seg") (auto simp: segment_phones_def)
  from full obtain labels where "make_label C seg = Inr labels"
    "prosody_of_labels U labels = Inr full"
    by (cases "make_label C seg") (simp_all add: pyopenjtalk_g2p_prosody_def)
  with p show ?thesis by blast
qed

text \<open>
  Claim C1, amended: for every non-blank input text without a character in
  U+4E00..U+9FA5, the normalized text is cut into content spans of Japanese-script
  characters (kana, the ideographs the class holds, half- and full-width alphanumerics)
  that alternate with mark spans of one character each, the spans giving back the
  normalized text in order; the result is defined whenever the label pipeline is defined
  on every non-empty content span; and the result is the post-normalized concatenation,
  span after span, of the phones of the content span, derived through the labels of the
  Japanese front-end with the first and last element cut, and the mark that follows the
  span. A non-blank text with a character in U+4E00..U+9FA5, which most kanji are, is
  processed by the Chinese romanization instead.
\<close>

theorem g2p_routes:
  assumes nonblank: "strip U t \<noteq> []"
    and norm: "norm_text = text_normalize U t"
    and segs: "segs = re_split_chars (japanese_mark U) norm_text"
    and marks: "marks = re_findall_chars (japanese_mark U) norm_text"
  shows "(is_chinese t \<longrightarrow> g2p U C t wp = chinese_g2p C t)
       \<and> (\<not> is_chinese t \<longrightarrow>
            length segs = Suc (length marks)
          \<and> concat (splice segs marks) = norm_text
          \<and> (\<forall>seg \<in> set segs. \<forall>c \<in> set seg. japanese_character U c)
          \<and> (\<forall>m \<in> set marks. \<exists>c. m = [c] \<and> \<not> japanese_character U c)
          \<and> ((\<forall>seg \<in> set segs. seg \<noteq> [] \<longrightarrow>
                  (\<exists>full. pyopenjtalk_g2p_prosody U C seg = Inr full))
               \<longrightarrow> (\<exists>out. g2p U C t True = Inr out))
          \<and> (\<forall>out. g2p U C t True = Inr out \<longrightarrow>
                (\<exists>phs. length phs = length segs
                   \<and> (\<forall>k < length segs. segs ! k = [] \<longrightarrow> phs ! k = [])
                   \<and> (\<forall>k < length segs. segs ! k \<noteq> [] \<longrightarrow>
                         (\<exists>labels full. make_label C (segs ! k) = Inr labels
                            \<and> prosody_of_labels U labels = Inr full
                            \<and> phs ! k = butlast (tl full)))
                   \<and> out = map post_replace_phoneme
                             (concat (map (\<lambda>k. phs ! k @ mark_after U marks k)
                                        [0..<length segs])))))"
proof (intro conjI impI)
  assume "is_chinese t"
  with nonblank show "g2p U C t wp = chinese_g2p C t"
    by (simp add: g2p_def)
next
  assume "\<not> is_chinese t"
  show "length segs = Suc (length marks)"
    by (simp add: segs marks length_re_split_chars)
next
  assume "\<not> is_chinese t"
  show "concat (splice segs marks) = norm_text"
    by (simp add: segs marks concat_splice_split)
next
  assume "\<not> is_chinese t"
  show "\<forall>seg \<in> set segs. \<forall>c \<in> set seg. japanese_character U c"
    using re_split_chars_class [of _ "japanese_mark U" norm_text]
    by (auto simp: segs japanese_mark_def)
next
  assume "\<not> is_chinese t"
  show "\<forall>m \<in> set marks. \<exists>c. m = [c] \<and> \<not> japanese_character U c"
    using re_findall_chars_single [of _ "japanese_mark U" norm_text]
    by (auto simp: marks japanese_mark_def)
next
  assume japanese: "\<not> is_chinese t"
    and ok: "\<forall>seg \<in> set segs. seg \<noteq> [] \<longrightarrow>
               (\<exists>full. pyopenjtalk_g2p_prosody U C seg = Inr full)"
  have "\<exists>p. segment_phones U C True seg = Inr p" if "seg \<in> set segs" for seg
  proof (cases "seg = []")
    case True
    then show ?thesis by (simp add: segment_phones_def)
  next
    case False
    with ok that obtain full where "pyopenjtalk_g2p_prosody U C seg = Inr full"
      by blast
    with False show ?thesis by (simp add: segment_phones_def)
  qed
  then have "\<forall>seg \<in> set segs. \<exists>p. segment_phones U C True seg = Inr p"
    by blast
  from g2p_loop_total [OF this, of marks 0 "[]"]
  obtain phonemes where "g2p_loop U C True marks 0 segs [] = Inr phonemes"
    by blast
  with nonblank japanese show "\<exists>out. g2p U C t True = Inr out"
    by (simp add: g2p_def japanese_processing_def norm [symmetric] segs [symmetric]
        marks [symmetric])
next
  assume japanese: "\<not> is_chinese t"
  show "\<forall>out. g2p U C t True = Inr out \<longrightarrow>
          (\<exists>phs. length phs = length segs
             \<and> (\<forall>k < length segs. segs ! k = [] \<longrightarrow> phs ! k = [])
             \<and> (\<forall>k < length segs. segs ! k \<noteq> [] \<longrightarrow>
                   (\<exists>labels full. make_label C (segs ! k) = Inr labels
                      \<and> prosody_of_labels U labels = Inr full
                      \<and> phs ! k = butlast (tl full)))
             \<and> out = map post_replace_phoneme
                       (concat (map (\<lambda>k. phs ! k @ mark_after U marks k)
                                  [0..<length segs])))"
  proof (intro allI impI)
    fix out
    assume "g2p U C t True = Inr out"
    with nonblank japanese
    have "(case g2p_loop U C True marks 0 segs [] of
             Inl e \<Rightarrow> Inl e
           | Inr phonemes \<Rightarrow> Inr (map post_replace_phoneme phonemes)) = Inr out"
      by (simp add: g2p_def japanese_processing_def norm [symmetric] segs [symmetric]
          marks [symmetric])
    then obtain phonemes where loop: "g2p_loop U C True marks 0 segs [] = Inr phonemes"
      and out: "out = map post_replace_phoneme phonemes"
      by (cases "g2p_loop U C True marks 0 segs []") auto
    from g2p_loop_chunks [OF loop] obtain phs where len: "length phs = length segs"
      and each: "\<forall>k < length segs. segment_phones U C True (segs ! k) = Inr (phs ! k)"
      and phonemes: "phonemes = concat (map (\<lambda>k. phs ! k @ mark_after U marks k)
                                          [0..<length segs])"
      by auto
    have empty: "\<forall>k < length segs. segs ! k = [] \<longrightarrow> phs ! k = []"
      using each by (auto simp: segment_phones_def)
    have derived: "\<forall>k < length segs. segs ! k \<noteq> [] \<longrightarrow>
                   (\<exists>labels full. make_label C (segs ! k) = Inr labels
                      \<and> prosody_of_labels U labels = Inr full
                      \<and> phs ! k = butlast (tl full))"
      using each segment_phones_prosody by blast
    have result: "out = map post_replace_phoneme
                   (concat (map (\<lambda>k. phs ! k @ mark_after U marks k) [0..<length segs]))"
      by (simp only: out phonemes)
    show "\<exists>phs. length phs = length segs
             \<and> (\<forall>k < length segs. segs ! k = [] \<longrightarrow> phs ! k = [])
             \<and> (\<forall>k < length segs. segs ! k \<noteq> [] \<longrightarrow>
                   (\<exists>labels full. make_label C (segs ! k) = Inr labels
                      \<and> prosody_of_labels U labels = Inr full
                      \<and> phs ! k = butlast (tl full)))
             \<and> out = map post_replace_phoneme
                       (concat (map (\<lambda>k. phs ! k @ mark_after U marks k)
                                  [0..<length segs]))"
      by (intro exI [of _ phs] conjI len empty derived result)
  qed
qed

lemma kan_segment:
  "seg \<noteq> [] \<Longrightarrow> segment_phones sample_db sample_collab True seg = Inr [[107], [97], [93], [78]]"
  by (simp add: segment_phones_def pyopenjtalk_g2p_prosody_def sample_collab_def kan_prosody)

lemma han_syllable: "chinese_g2p sample_collab t = Inr [[104], [97, 110, 52]]"
  by (simp add: chinese_g2p_def sample_collab_def syllable_phonemes_def tone_digit_def Let_def)

text \<open>
  Claim C1 as stated sends every non-blank text, text with kanji in particular, through
  the Japanese label pipeline. The text of the one kanji U+6F22 is not blank and the
  kanji is a character of the Japanese class, but \<open>is_chinese\<close> holds for it, and \<open>g2p\<close>
  returns what the romanization gives (\<open>h\<close>, \<open>an4\<close> with the stand-in engine), not what
  the Japanese processing would give (\<open>k\<close>, \<open>a\<close>, \<open>]\<close>, \<open>N\<close> with the stand-in front-end).
\<close>

theorem kanji_counterexample:
  "strip sample_db [0x6F22] \<noteq> [] \<and> japanese_character sample_db 0x6F22
   \<and> is_chinese [0x6F22]
   \<and> g2p sample_db sample_collab [0x6F22] True = chinese_g2p sample_collab [0x6F22]
   \<and> g2p sample_db sample_collab [0x6F22] True = Inr [[104], [97, 110, 52]]
   \<and> japanese_processing sample_db sample_collab [0x6F22] True
        = Inr [[107], [97], [93], [78]]"
proof -
  have nonblank: "strip sample_db [0x6F22] \<noteq> []"
    by (simp add: strip_def sample_db_def sample_isspace_def)
  have kanji: "japanese_character sample_db 0x6F22"
    by (simp add: japanese_character_def)
  have chinese: "is_chinese [0x6F22]"
    by (simp add: is_chinese_def)
  have route: "g2p sample_db sample_collab [0x6F22] True = chinese_g2p sample_collab [0x6F22]"
    using nonblank chinese by (simp add: g2p_def)
  have norm: "text_normalize sample_db [0x6F22] = [0x6F22]"
    by (simp add: text_normalize_def re_sub_char_def consecutive_punctuation_def sample_db_def)
  have japanese: "japanese_processing sample_db sample_collab [0x6F22] True
        = Inr [[107], [97], [93], [78]]"
    by (simp add: japanese_processing_def norm japanese_mark_def kanji re_findall_chars_def
        kan_segment mark_after_def post_replace_phoneme_def rep_map_def)
  show ?thesis
    using nonblank kanji chinese route japanese by (simp add: han_syllable)
qed

theorem g2p_routes_witness:
  "strip sample_db [0x304B, 0x3093, 0x3002] \<noteq> []
   \<and> \<not> is_chinese [0x304B, 0x3093, 0x3002]
   \<and> text_normalize sample_db [0x304B, 0x3093, 0x3002] = [0x304B, 0x3093, 0x3002]
   \<and> re_split_chars (japanese_mark sample_db) [0x304B, 0x3093, 0x3002] = [[0x304B, 0x3093], []]
   \<and> re_findall_chars (japanese_mark sample_db) [0x304B, 0x3093, 0x3002] = [[0x3002]]
   \<and> g2p sample_db sample_collab [0x304B, 0x3093, 0x3002] True
        = Inr [[107], [97], [93], [78], [46]]
   \<and> (\<exists>phs. length phs = length ([[0x304B, 0x3093], []] :: pystr list)
          \<and> (\<forall>k < length ([[0x304B, 0x3093], []] :: pystr list).
                 ([[0x304B, 0x3093], []] :: pystr list) ! k = [] \<longrightarrow> phs ! k = [])
          \<and> (\<forall>k < length ([[0x304B, 0x3093], []] :: pystr list).
                 ([[0x304B, 0x3093], []] :: pystr list) ! k \<noteq> [] \<longrightarrow>
                 (\<exists>labels full.
                     make_label sample_collab (([[0x304B, 0x3093], []] :: pystr list) ! k)
                       = Inr labels
                   \<and> prosody_of_labels sample_db labels = Inr full
                   \<and> phs ! k = butlast (tl full)))
          \<and> [[107], [97], [93], [78], [46]]
              = map post_replace_phoneme
                  (concat (map (\<lambda>k. phs ! k @ mark_after sample_db [[0x3002]] k)
                             [0..<length ([[0x304B, 0x3093], []] :: pystr list)])))"
proof -
  have nonblank: "strip sample_db [0x304B, 0x3093, 0x3002] \<noteq> []"
    by (simp add: strip_def sample_db_def sample_isspace_def)
  have japanese: "\<not> is_chinese [0x304B, 0x3093, 0x3002]"
    by (simp add: is_chinese_def)
  have norm: "text_normalize sample_db [0x304B, 0x3093, 0x3002] = [0x304B, 0x3093, 0x3002]"
    by (simp add: text_normalize_def re_sub_char_def consecutive_punctuation_def sample_db_def)
  have classes: "\<not> japanese_mark sample_db 0x304B" "\<not> japanese_mark sample_db 0x3093"
    "japanese_mark sample_db 0x3002"
    by (simp_all add: japanese_mark_def japanese_character_def sample_db_def)
  have segs: "re_split_chars (japanese_mark sample_db) [0x304B, 0x3093, 0x3002]
              = [[0x304B, 0x3093], []]"
    by (simp add: classes)
  have marks: "re_findall_chars (japanese_mark sample_db) [0x304B, 0x3093, 0x3002] = [[0x3002]]"
    by (simp add: re_findall_chars_def classes)
  have result: "g2p sample_db sample_collab [0x304B, 0x3093, 0x3002] True
        = Inr [[107], [97], [93], [78], [46]]"
  proof -
    have after: "mark_after sample_db [[0x3002]] 0 = [[0x3002]]"
      "mark_after sample_db [[0x3002]] (Suc 0) = []"
      by (simp_all add: mark_after_def strip_def sample_db_def sample_isspace_def)
    have empty: "segment_phones sample_db sample_collab True [] = Inr []"
      by (simp add: segment_phones_def)
    have "japanese_processing sample_db sample_collab [0x304B, 0x3093, 0x3002] True
          = Inr [[107], [97], [93], [78], [46]]"
      by (simp add: japanese_processing_def norm classes re_findall_chars_def kan_segment
          empty after post_replace_phoneme_def rep_map_def)
    with nonblank japanese show ?thesis
      by (simp add: g2p_def)
  qed
  note routes = g2p_routes [OF nonblank norm [symmetric] segs [symmetric] marks [symmetric],
      of sample_collab True]
  note japanese_route = routes [THEN conjunct2, THEN mp, OF japanese]
  note returned = japanese_route [THEN conjunct2, THEN conjunct2, THEN conjunct2,
      THEN conjunct2, THEN conjunct2, THEN spec, THEN mp, OF result]
  show ?thesis
    by (intro conjI nonblank japanese norm segs marks result returned)
qed

section \<open>Properties of the bounded cache\<close>

lemma lru_without_absent: "k \<notin> fst ` set es \<Longrightarrow> lru_without k es = es"
  by (induction es) (auto simp: lru_without_def)

lemma lru_set_capacity: "capacity (lru_set c k v) = capacity c"
  by (simp add: lru_set_def Let_def)

lemma lru_set_absent:
  assumes "\<not> lru_contains c k"
  shows "entries (lru_set c k v) =
         (if capacity c \<le> length (entries c) then tl (entries c @ [(k, v)])
          else entries c @ [(k, v)])"
proof -
  have "lru_without k (entries c) = entries c"
    using assms by (intro lru_without_absent) (simp add: lru_contains_def lru_keys_def)
  then show ?thesis
    by (simp add: lru_set_def Let_def less_Suc_eq_le)
qed

lemma lru_set_evict_first:
  assumes "0 < capacity c" and "\<not> lru_contains c k"
    and "length (entries c) \<le> capacity c"
  shows "entries (lru_set c k v) =
         (if length (entries c) = capacity c then tl (entries c) else entries c) @ [(k, v)]"
proof (cases "length (entries c) = capacity c")
  case True
  with assms(1) have "entries c \<noteq> []"
    by auto
  with True show ?thesis
    by (simp add: lru_set_absent [OF assms(2)])
next
  case False
  with assms(3) show ?thesis
    by (simp add: lru_set_absent [OF assms(2)])
qed

lemma fold_lru_set_capacity:
  "capacity (fold (\<lambda>k c. lru_set c k (v k)) ks c) = capacity c"
  by (induction ks arbitrary: c) (simp_all add: lru_set_capacity)

lemma fold_lru_set_keys:
  assumes "distinct ks"
  shows "lru_keys (fold (\<lambda>k c. lru_set c k (v k)) ks (lru_empty N)) = drop (length ks - N) ks"
  using assms
proof (induction ks rule: rev_induct)
  case Nil
  then show ?case by (simp add: lru_keys_def lru_empty_def)
next
  case (snoc k ks)
  define c where "c = fold (\<lambda>k c. lru_set c k (v k)) ks (lru_empty N)"
  have keys: "lru_keys c = drop (length ks - N) ks"
    using snoc by (simp add: c_def)
  have cap: "capacity c = N"
    by (simp add: c_def fold_lru_set_capacity lru_empty_def)
  have len: "length (entries c) = min (length ks) N"
    using keys [unfolded lru_keys_def, THEN arg_cong, of length] by (simp add: min_def)
  have absent: "\<not> lru_contains c k"
    using snoc.prems keys by (auto simp: lru_contains_def dest: in_set_dropD)
  have step: "fold (\<lambda>k c. lru_set c k (v k)) (ks @ [k]) (lru_empty N) = lru_set c k (v k)"
    by (simp add: c_def)
  show ?case
  proof (cases "N \<le> length ks")
    case True
    then have "entries (lru_set c k (v k)) = tl (entries c @ [(k, v k)])"
      using lru_set_absent [OF absent] cap len by simp
    then have "lru_keys (lru_set c k (v k)) = tl (lru_keys c @ [k])"
      by (simp add: lru_keys_def map_tl)
    also have "\<dots> = drop (Suc (length ks) - N) (ks @ [k])"
    proof (cases "N = 0")
      case True
      then show ?thesis by (simp add: keys)
    next
      case False
      with \<open>N \<le> length ks\<close> have "drop (length ks - N) ks \<noteq> []"
        by simp
      then have "tl (drop (length ks - N) ks @ [k]) = drop (Suc (length ks - N)) ks @ [k]"
        by (simp add: drop_Suc tl_drop)
      with \<open>N \<le> length ks\<close> False show ?thesis
        by (simp add: keys Suc_diff_le)
    qed
    finally show ?thesis
      by (simp add: c_def)
  next
    case False
    then have "entries (lru_set c k (v k)) = entries c @ [(k, v k)]"
      using lru_set_absent [OF absent] cap len by simp
    then have "lru_keys (lru_set c k (v k)) = lru_keys c @ [k]"
      by (simp add: lru_keys_def)
    with False keys show ?thesis
      by (simp add: c_def)
  qed
qed

text \<open>
  Claim C5: for a cache of capacity \<open>N\<close>, inserting \<open>N + 1\<close> entries with distinct keys
  into the empty cache leaves exactly \<open>N\<close> entries, and the absent key is the least
  recently used one, the first inserted; an insertion of a new key into a full cache
  evicts exactly one entry, the least recently used one; and \<open>__new__\<close> stores the object
  of a key that is not cached by this insertion.
\<close>

theorem lru_eviction:
  assumes "distinct ks" and "length ks = Suc N"
  shows "lru_keys (fold (\<lambda>k c. lru_set c k (v k)) ks (lru_empty N)) = tl ks
       \<and> length (entries (fold (\<lambda>k c. lru_set c k (v k)) ks (lru_empty N))) = N
       \<and> \<not> lru_contains (fold (\<lambda>k c. lru_set c k (v k)) ks (lru_empty N)) (hd ks)
       \<and> (\<not> lru_contains c k \<and> length (entries c) = capacity c \<longrightarrow>
            lru_keys (lru_set c k w) = tl (lru_keys c @ [k])
          \<and> length (entries (lru_set c k w)) = capacity c)
       \<and> (\<not> lru_contains (prompt_cache s) k \<longrightarrow>
            prompt_cache (snd (ReferenceAudio_new U C M k t l s))
              = lru_set (prompt_cache s) k (next_addr s))"
proof -
  define c' where "c' = fold (\<lambda>k c. lru_set c k (v k)) ks (lru_empty N)"
  have keys: "lru_keys c' = tl ks"
    using fold_lru_set_keys [OF assms(1), of v N] assms(2) by (simp add: c'_def drop_Suc)
  have len: "length (entries c') = N"
    using keys [unfolded lru_keys_def, THEN arg_cong, of length] assms(2) by simp
  obtain k0 rest where ks: "ks = k0 # rest"
    using assms(2) by (cases ks) auto
  have gone: "\<not> lru_contains c' (hd ks)"
    using assms(1) keys by (simp add: lru_contains_def ks)
  have one: "lru_keys (lru_set c k w) = tl (lru_keys c @ [k])
          \<and> length (entries (lru_set c k w)) = capacity c"
    if "\<not> lru_contains c k" "length (entries c) = capacity c"
    using lru_set_absent [OF that(1), of w] that(2) by (simp add: lru_keys_def map_tl)
  have new: "prompt_cache (snd (ReferenceAudio_new U C M k t l s))
              = lru_set (prompt_cache s) k (next_addr s)"
    if "\<not> lru_contains (prompt_cache s) k"
    using that by (simp add: ReferenceAudio_new_def Let_def)
  show ?thesis
    using keys len gone one new unfolding c'_def by blast
qed

theorem lru_eviction_witness:
  "distinct [[97], [98], [99 :: nat]] \<and> length [[97], [98], [99 :: nat]] = Suc 2
   \<and> lru_keys (fold (\<lambda>k c. lru_set c k (0 :: addr)) [[97], [98], [99]] (lru_empty 2))
       = [[98], [99]]"
proof -
  have distinct: "distinct [[97], [98], [99 :: nat]]"
    by simp
  have len: "length [[97], [98], [99 :: nat]] = Suc 2"
    by simp
  have "lru_keys (fold (\<lambda>k c. lru_set c k (0 :: addr)) [[97], [98], [99]] (lru_empty 2))
        = tl [[97], [98], [99]]"
    using lru_eviction [OF distinct len, of "\<lambda>k. 0 :: addr"] by (rule conjunct1)
  with distinct len show ?thesis
    by simp
qed

section \<open>Properties of the reference entries\<close>

lemma extract_bert_features_state:
  "extract_bert_features M a t s = (r, s') \<Longrightarrow> s' = log_call (BertRun t) s"
  unfolding extract_bert_features_def Let_def
  by (auto split: sum.splits prod.splits option.splits if_splits)

lemma extract_bert_features_length:
  assumes "extract_bert_features M a t s = (Inr feats, s')"
    and "heap s a = Some inst" and "phonemes_seq inst = Val [ids]"
  shows "length feats = length ids"
  using assms unfolding extract_bert_features_def Let_def
  by (auto simp: log_call_def phonemes_shape1_def
      split: sum.splits prod.splits option.splits if_splits)

lemma set_text_fails:
  assumes "to_phones U C l t = Inl e"
  shows "set_text U C M a t l s =
         (Inl e, log_call (Phonemized l t)
                   (update_instance a (\<lambda>i. i\<lparr>text_attr := Some t, language := Some l\<rparr>) s))"
  using assms by (simp add: set_text_def to_phones_def Let_def split: if_splits)

lemma int64_row_Inr: "int64_row ids = Inr row \<Longrightarrow> row = [ids]"
  by (simp add: int64_row_def split: if_splits)

lemma set_text_cases:
  assumes heap: "heap s a = Some inst"
    and run: "set_text U C M a t l s = (r, s')"
  shows "\<exists>inst' evs.
           s' = s\<lparr>heap := (heap s)(a \<mapsto> inst'), calls := calls s @ evs\<rparr>
         \<and> text_attr inst' = Some t \<and> language inst' = Some l
         \<and> audio_32k inst' = audio_32k inst \<and> ssl_content inst' = ssl_content inst
         \<and> initialized inst' = initialized inst
         \<and> set evs \<subseteq> {Phonemized l t, BertRun t}
         \<and> (\<forall>u. r = Inr u \<longrightarrow>
               (\<exists>ids feats. to_phones U C l t = Inr ids \<and> phonemes_seq inst' = Val [ids]
                  \<and> text_bert inst' = Val feats \<and> length feats = length ids))
         \<and> (\<forall>u ids. r = Inr u \<and> l \<noteq> lang_zh \<and> to_phones U C l t = Inr ids \<longrightarrow>
               text_bert inst'
                 = Val (replicate (length ids) (replicate (BERT_FEATURE_DIM M) 0)))
         \<and> (\<forall>e. to_phones U C l t = Inl e \<longrightarrow>
               r = Inl e \<and> phonemes_seq inst' = phonemes_seq inst
               \<and> text_bert inst' = text_bert inst)"
proof (cases "l = lang_zh")
  case False
  define i1 where "i1 = inst\<lparr>text_attr := Some t, language := Some l\<rparr>"
  define s2 where "s2 = s\<lparr>heap := (heap s)(a \<mapsto> i1), calls := calls s @ [Phonemized l t]\<rparr>"
  have s2: "log_call (Phonemized l t)
              (update_instance a (\<lambda>i. i\<lparr>text_attr := Some t, language := Some l\<rparr>) s) = s2"
    by (simp add: s2_def i1_def log_call_def update_instance_def heap)
  show ?thesis
  proof (cases "japanese_to_phones U C t")
    case (Inl e)
    with False run s2 have "r = Inl e" "s' = s2"
      by (simp_all add: set_text_def Let_def)
    with Inl False show ?thesis
      by (intro exI [of _ i1] exI [of _ "[Phonemized l t]"])
        (simp add: s2_def i1_def to_phones_def)
  next
    case (Inr ids)
    show ?thesis
    proof (cases "int64_row ids")
      case (Inl e)
      with Inr False run s2 have "r = Inl e" "s' = s2"
        by (simp_all add: set_text_def Let_def)
      with Inr False show ?thesis
        by (intro exI [of _ i1] exI [of _ "[Phonemized l t]"])
          (simp add: s2_def i1_def to_phones_def)
    next
      case row: (Inr row)
      then have row_eq: "row = [ids]"
        by (rule int64_row_Inr)
      define i3 where "i3 = i1\<lparr>phonemes_seq := Val [ids],
        text_bert := Val (replicate (length ids) (replicate (BERT_FEATURE_DIM M) 0))\<rparr>"
      from Inr row row_eq False run s2
      have "r = Inr ()" "s' = s2\<lparr>heap := (heap s2)(a \<mapsto> i3)\<rparr>"
        by (simp_all add: set_text_def Let_def update_instance_def s2_def i3_def
            phonemes_shape1_def)
      with Inr False show ?thesis
        by (intro exI [of _ i3] exI [of _ "[Phonemized l t]"])
          (simp add: s2_def i1_def i3_def to_phones_def)
    qed
  qed
next
  case True
  define i1 where "i1 = inst\<lparr>text_attr := Some t, language := Some l\<rparr>"
  define s2 where "s2 = s\<lparr>heap := (heap s)(a \<mapsto> i1), calls := calls s @ [Phonemized l t]\<rparr>"
  have s2: "log_call (Phonemized l t)
              (update_instance a (\<lambda>i. i\<lparr>text_attr := Some t, language := Some l\<rparr>) s) = s2"
    by (simp add: s2_def i1_def log_call_def update_instance_def heap)
  show ?thesis
  proof (cases "chinese_to_phones U C t")
    case (Inl e)
    with True run s2 have "r = Inl e" "s' = s2"
      by (simp_all add: set_text_def Let_def)
    with Inl True show ?thesis
      by (intro exI [of _ i1] exI [of _ "[Phonemized l t]"])
        (simp add: s2_def i1_def to_phones_def)
  next
    case (Inr ids)
    show ?thesis
    proof (cases "int64_row ids")
      case (Inl e)
      with Inr True run s2 have "r = Inl e" "s' = s2"
        by (simp_all add: set_text_def Let_def)
      with Inr True show ?thesis
        by (intro exI [of _ i1] exI [of _ "[Phonemized l t]"])
          (simp add: s2_def i1_def to_phones_def)
    next
      case row: (Inr row)
      then have row_eq: "row = [ids]"
        by (rule int64_row_Inr)
      define i3 where "i3 = i1\<lparr>phonemes_seq := Val [ids]\<rparr>"
      define s3 where "s3 = s2\<lparr>heap := (heap s2)(a \<mapsto> i3)\<rparr>"
      have s3: "update_instance a (\<lambda>i. i\<lparr>phonemes_seq := Val [ids]\<rparr>) s2 = s3"
        by (simp add: s3_def i3_def update_instance_def s2_def)
      obtain rb s4 where bert: "extract_bert_features M a t s3 = (rb, s4)"
        by (cases "extract_bert_features M a t s3")
      have s4: "s4 = s3\<lparr>calls := calls s3 @ [BertRun t]\<rparr>"
        using extract_bert_features_state [OF bert] by (simp add: log_call_def)
      show ?thesis
      proof (cases rb)
        case (Inl e)
        with Inr row row_eq True run s2 s3 bert have "r = Inl e" "s' = s4"
          by (simp_all add: set_text_def Let_def)
        with Inr True show ?thesis
          by (intro exI [of _ i3] exI [of _ "[Phonemized l t, BertRun t]"])
            (simp add: s4 s3_def s2_def i1_def i3_def to_phones_def)
      next
        case feats: (Inr feats)
        have "heap s3 a = Some i3" "phonemes_seq i3 = Val [ids]"
          by (simp_all add: s3_def i3_def)
        with bert feats have len: "length feats = length ids"
          using extract_bert_features_length by blast
        define i5 where "i5 = i3\<lparr>text_bert := Val feats\<rparr>"
        from Inr row row_eq True run s2 s3 bert feats
        have "r = Inr ()" "s' = s4\<lparr>heap := (heap s4)(a \<mapsto> i5)\<rparr>"
          by (simp_all add: set_text_def Let_def update_instance_def s4 s3_def i5_def)
        with Inr True len show ?thesis
          by (intro exI [of _ i5] exI [of _ "[Phonemized l t, BertRun t]"])
            (simp add: s4 s3_def s2_def i1_def i3_def i5_def to_phones_def)
      qed
    qed
  qed
qed

lemma init_audio_cases:
  assumes heap: "heap s a = Some inst"
    and run: "init_audio M a w s = (r, s')"
  shows "\<exists>inst' evs hub.
           s' = s\<lparr>heap := (heap s)(a \<mapsto> inst'), cn_hubert := hub, calls := calls s @ evs\<rparr>
         \<and> text_attr inst' = text_attr inst \<and> language inst' = language inst
         \<and> phonemes_seq inst' = phonemes_seq inst \<and> text_bert inst' = text_bert inst
         \<and> (\<forall>u. r = Inr u \<longrightarrow> initialized inst')
         \<and> (\<forall>e. r = Inl e \<longrightarrow> initialized inst' = initialized inst)"
proof (cases "load_audio M w")
  case (Inl e)
  with run have "r = Inl e" "s' = s\<lparr>calls := calls s @ [AudioLoaded w]\<rparr>"
    by (auto simp: init_audio_def Let_def log_call_def)
  then show ?thesis
    using heap
    by (intro exI [of _ inst] exI [of _ "[AudioLoaded w]"] exI [of _ "cn_hubert s"])
      (simp add: fun_upd_idem)
next
  case samples: (Inr samples)
  define i2 where "i2 = inst\<lparr>audio_32k := Val samples\<rparr>"
  show ?thesis
  proof (cases "soxr_resample M samples")
    case (Inl e)
    with samples run have "r = Inl e"
      "s' = s\<lparr>heap := (heap s)(a \<mapsto> i2), calls := calls s @ [AudioLoaded w, Resampled]\<rparr>"
      by (auto simp: init_audio_def Let_def log_call_def update_instance_def heap i2_def)
    then show ?thesis
      by (intro exI [of _ i2] exI [of _ "[AudioLoaded w, Resampled]"]
          exI [of _ "cn_hubert s"]) (simp add: i2_def)
  next
    case audio: (Inr audio_16k)
    show ?thesis
    proof (cases "cn_hubert s")
      case on: True
      show ?thesis
      proof (cases "cn_hubert_run M [audio_16k]")
        case (Inl e)
        with samples audio run on have "r = Inl e"
          "s' = s\<lparr>heap := (heap s)(a \<mapsto> i2),
                   calls := calls s @ [AudioLoaded w, Resampled, HubertRun]\<rparr>"
          by (auto simp: init_audio_def Let_def log_call_def update_instance_def heap i2_def)
        then show ?thesis
          by (intro exI [of _ i2] exI [of _ "[AudioLoaded w, Resampled, HubertRun]"] exI [of _ "cn_hubert s"]) (simp add: i2_def)
      next
        case (Inr outputs)
        define i5 where "i5 = i2\<lparr>ssl_content := Val outputs, initialized := True\<rparr>"
        from Inr samples audio run on have "r = Inr ()"
          "s' = s\<lparr>heap := (heap s)(a \<mapsto> i5),
                   calls := calls s @ [AudioLoaded w, Resampled, HubertRun]\<rparr>"
          by (auto simp: init_audio_def Let_def log_call_def update_instance_def heap i2_def
              i5_def)
        then show ?thesis
          by (intro exI [of _ i5] exI [of _ "[AudioLoaded w, Resampled, HubertRun]"] exI [of _ "cn_hubert s"]) (simp add: i2_def i5_def)
      qed
    next
      case off: False
      show ?thesis
      proof (cases "load_cn_hubert M")
        case (Some e)
        with off samples audio run have "r = Inl e"
          "s' = s\<lparr>heap := (heap s)(a \<mapsto> i2),
                   calls := calls s @ [AudioLoaded w, Resampled, HubertLoaded]\<rparr>"
          by (auto simp: init_audio_def Let_def log_call_def update_instance_def heap i2_def)
        then show ?thesis
          by (intro exI [of _ i2] exI [of _ "[AudioLoaded w, Resampled, HubertLoaded]"]
              exI [of _ "cn_hubert s"]) (simp add: i2_def)
      next
        case loaded: None
        show ?thesis
        proof (cases "cn_hubert_run M [audio_16k]")
          case (Inl e)
          with samples audio run off loaded have "r = Inl e"
            "s' = s\<lparr>heap := (heap s)(a \<mapsto> i2), cn_hubert := True,
                     calls := calls s @ [AudioLoaded w, Resampled, HubertLoaded, HubertRun]\<rparr>"
            by (auto simp: init_audio_def Let_def log_call_def update_instance_def heap i2_def)
          then show ?thesis
            by (intro exI [of _ i2] exI [of _ "[AudioLoaded w, Resampled, HubertLoaded, HubertRun]"] exI [of _ "True"]) (simp add: i2_def)
        next
          case (Inr outputs)
          define i5 where "i5 = i2\<lparr>ssl_content := Val outputs, initialized := True\<rparr>"
          from Inr samples audio run off loaded have "r = Inr ()"
            "s' = s\<lparr>heap := (heap s)(a \<mapsto> i5), cn_hubert := True,
                     calls := calls s @ [AudioLoaded w, Resampled, HubertLoaded, HubertRun]\<rparr>"
            by (auto simp: init_audio_def Let_def log_call_def update_instance_def heap i2_def
                i5_def)
          then show ?thesis
            by (intro exI [of _ i5] exI [of _ "[AudioLoaded w, Resampled, HubertLoaded, HubertRun]"] exI [of _ "True"]) (simp add: i2_def i5_def)
        qed
      qed
    qed
  qed
qed

lemma map_of_refreshed:
  "map_of (lru_without k es @ [(k, a)]) k' = (if k' = k then Some a else map_of es k')"
proof -
  have "map_of (lru_without k es) k = None"
    by (induction es) (auto simp: lru_without_def)
  moreover have "map_of (lru_without k es) k' = map_of es k'" if "k' \<noteq> k"
    using that by (induction es) (auto simp: lru_without_def)
  ultimately show ?thesis
    by (auto simp: map_add_def split: option.splits)
qed

lemma lru_get_cached:
  assumes "map_of (entries c) k = Some a"
  shows "lru_contains c k"
    and "lru_get c k = Inr (a, c\<lparr>entries := lru_without k (entries c) @ [(k, a)]\<rparr>)"
proof -
  from assms have "(k, a) \<in> set (entries c)"
    by (rule map_of_SomeD)
  then show "lru_contains c k"
    by (force simp: lru_contains_def lru_keys_def)
  show "lru_get c k = Inr (a, c\<lparr>entries := lru_without k (entries c) @ [(k, a)]\<rparr>)"
    using assms by (simp add: lru_get_def)
qed

text \<open>\<open>__new__\<close> for a cached key whose entry differs from the request.\<close>

lemma new_cached_differs:
  assumes cached: "map_of (entries (prompt_cache s)) k = Some a"
    and obj: "heap s a = Some inst"
    and old: "text_attr inst = Some t0"
    and differs: "t0 \<noteq> t \<or> language inst \<noteq> Some l"
  shows "ReferenceAudio_new U C M k t l s =
         (case set_text U C M a t l
                 (s\<lparr>prompt_cache := (prompt_cache s)
                        \<lparr>entries := lru_without k (entries (prompt_cache s)) @ [(k, a)]\<rparr>\<rparr>) of
            (Inl e, s2) \<Rightarrow> (Inl e, s2)
          | (Inr u, s2) \<Rightarrow> (Inr a, s2))"
  using lru_get_cached [OF cached] obj old differs
  by (simp add: ReferenceAudio_new_def Let_def)

lemma new_cached_same:
  assumes cached: "map_of (entries (prompt_cache s)) k = Some a"
    and obj: "heap s a = Some inst"
    and old: "text_attr inst = Some t" "language inst = Some l"
  shows "ReferenceAudio_new U C M k t l s =
         (Inr a, s\<lparr>prompt_cache := (prompt_cache s)
                      \<lparr>entries := lru_without k (entries (prompt_cache s)) @ [(k, a)]\<rparr>\<rparr>)"
  using lru_get_cached [OF cached] obj old
  by (simp add: ReferenceAudio_new_def Let_def)

text \<open>
  Claim C2, amended: for every cached key whose entry differs from the request in text
  or language, if the phonemization step of the in-place update raises, the exception
  reaches the caller, the key stays cached with the same object, and the object's
  phoneme ids, semantic features, waveform and audio embedding are unchanged, but its
  text and its language already hold the requested values; no other object changes.
\<close>

theorem failed_update_partial:
  assumes cached: "map_of (entries (prompt_cache s)) k = Some a"
    and obj: "heap s a = Some inst"
    and old: "text_attr inst = Some t0"
    and differs: "t0 \<noteq> t \<or> language inst \<noteq> Some l"
    and fails: "to_phones U C l t = Inl e"
  shows "\<exists>s'. ReferenceAudio_new U C M k t l s = (Inl e, s')
          \<and> heap s' a = Some (inst\<lparr>text_attr := Some t, language := Some l\<rparr>)
          \<and> (\<forall>b. b \<noteq> a \<longrightarrow> heap s' b = heap s b)
          \<and> map_of (entries (prompt_cache s')) = map_of (entries (prompt_cache s))
          \<and> calls s' = calls s @ [Phonemized l t]"
proof -
  define s1 where "s1 = s\<lparr>prompt_cache := (prompt_cache s)
                        \<lparr>entries := lru_without k (entries (prompt_cache s)) @ [(k, a)]\<rparr>\<rparr>"
  define s' where "s' = log_call (Phonemized l t)
                   (update_instance a (\<lambda>i. i\<lparr>text_attr := Some t, language := Some l\<rparr>) s1)"
  have "ReferenceAudio_new U C M k t l s = (Inl e, s')"
    unfolding new_cached_differs [OF cached obj old differs] s1_def [symmetric]
      set_text_fails [OF fails] s'_def
    by simp
  moreover have "heap s' a = Some (inst\<lparr>text_attr := Some t, language := Some l\<rparr>)"
    by (simp add: s'_def s1_def log_call_def update_instance_def obj)
  moreover have "\<forall>b. b \<noteq> a \<longrightarrow> heap s' b = heap s b"
    by (simp add: s'_def s1_def log_call_def update_instance_def)
  moreover have "map_of (entries (prompt_cache s')) = map_of (entries (prompt_cache s))"
  proof
    fix k'
    have "entries (prompt_cache s') = lru_without k (entries (prompt_cache s)) @ [(k, a)]"
      by (simp add: s'_def s1_def log_call_def update_instance_def)
    then have "map_of (entries (prompt_cache s')) k'
               = (if k' = k then Some a else map_of (entries (prompt_cache s)) k')"
      by (simp only: map_of_refreshed)
    with cached show "map_of (entries (prompt_cache s')) k' = map_of (entries (prompt_cache s)) k'"
      by auto
  qed
  moreover have "calls s' = calls s @ [Phonemized l t]"
    by (simp add: s'_def s1_def log_call_def update_instance_def)
  ultimately show ?thesis
    by blast
qed

lemma flaky_segment:
  "seg \<noteq> [] \<Longrightarrow> seg \<noteq> [0x3042] \<Longrightarrow>
   segment_phones sample_db flaky_collab True seg = Inr [[107], [97], [93], [78]]"
  by (simp add: segment_phones_def pyopenjtalk_g2p_prosody_def flaky_collab_def
      sample_collab_def kan_prosody)

lemma flaky_fails:
  "segment_phones sample_db flaky_collab True [0x3042] = Inl (CollaboratorFailure [0x3042])"
  by (simp add: segment_phones_def pyopenjtalk_g2p_prosody_def flaky_collab_def
      sample_collab_def)

lemma kana_not_chinese: "\<not> is_chinese [0x304B]" "\<not> is_chinese [0x3042]"
  by (simp_all add: is_chinese_def)

lemma kana_not_blank: "strip sample_db [0x304B] \<noteq> []" "strip sample_db [0x3042] \<noteq> []"
  by (simp_all add: strip_def sample_db_def sample_isspace_def)

lemma kana_normalized:
  "text_normalize sample_db [0x304B] = [0x304B]" "text_normalize sample_db [0x3042] = [0x3042]"
  by (simp_all add: text_normalize_def re_sub_char_def consecutive_punctuation_def
      sample_db_def)

lemma kana_not_mark: "\<not> japanese_mark sample_db 0x304B" "\<not> japanese_mark sample_db 0x3042"
  by (simp_all add: japanese_mark_def japanese_character_def)

lemma ka_phones: "japanese_to_phones sample_db flaky_collab [0x304B] = Inr [1, 2, 4, 3]"
proof -
  have "g2p sample_db flaky_collab [0x304B] True = Inr [[107], [97], [93], [78]]"
    using kana_not_chinese kana_not_blank
    by (simp add: g2p_def japanese_processing_def kana_normalized kana_not_mark
        re_findall_chars_def flaky_segment mark_after_def post_replace_phoneme_def rep_map_def)
  then show ?thesis
    by (simp add: japanese_to_phones_def phones_to_ids_def valid_phones_def flaky_collab_def
        sample_collab_def sample_symbols_def dom_def)
qed

lemma a_fails:
  "japanese_to_phones sample_db flaky_collab [0x3042] = Inl (CollaboratorFailure [0x3042])"
proof -
  have "g2p sample_db flaky_collab [0x3042] True = Inl (CollaboratorFailure [0x3042])"
    using kana_not_chinese kana_not_blank
    by (simp add: g2p_def japanese_processing_def kana_normalized kana_not_mark
        re_findall_chars_def flaky_fails)
  then show ?thesis
    by (simp add: japanese_to_phones_def)
qed

lemma replicate_two: "replicate 2 x = [x, x]"
  by (simp add: numeral_2_eq_2)

lemma cached_state_reached:
  "ReferenceAudio sample_db flaky_collab sample_models sample_key [0x304B] lang_ja
     (initial_state 10) = (Inr 0, cached_state)"
  by (simp add: ReferenceAudio_def ReferenceAudio_new_def ReferenceAudio_init_def
      init_audio_def set_text_def initial_state_def lru_contains_def lru_keys_def lru_empty_def
      lru_set_def lru_without_def Let_def bare_instance_def update_instance_def log_call_def
      lang_ja_def lang_zh_def ka_phones [unfolded lang_ja_def] int64_row_def phonemes_shape1_def sample_models_def
      cached_state_def cached_instance_def replicate_two)

lemma cached_state_entry:
  "map_of (entries (prompt_cache cached_state)) sample_key = Some 0"
  "heap cached_state 0 = Some cached_instance"
  "text_attr cached_instance = Some [0x304B]"
  by (simp_all add: cached_state_def cached_instance_def)

text \<open>
  Claim C2 as stated leaves every field of the cached entry unchanged when the
  phonemization of an in-place update raises. In the state with the cached entry, the
  request for the same key with the text of the kana U+3042, on which the front-end
  raises, ends in that exception; the phoneme ids of the entry are the old ones, but its
  text is the requested one.
\<close>

theorem failed_update_counterexample:
  "fst (ReferenceAudio_new sample_db flaky_collab sample_models sample_key [0x3042] lang_ja
          cached_state) = Inl (CollaboratorFailure [0x3042])
   \<and> map_option text_attr (heap cached_state 0) = Some (Some [0x304B])
   \<and> map_option text_attr
        (heap (snd (ReferenceAudio_new sample_db flaky_collab sample_models sample_key
                      [0x3042] lang_ja cached_state)) 0) = Some (Some [0x3042])
   \<and> map_option phonemes_seq
        (heap (snd (ReferenceAudio_new sample_db flaky_collab sample_models sample_key
                      [0x3042] lang_ja cached_state)) 0) = Some (Val [[1, 2, 4, 3]])"
proof -
  have differs: "[0x304B] \<noteq> [0x3042 :: nat] \<or> language cached_instance \<noteq> Some lang_ja"
    by simp
  have fails: "to_phones sample_db flaky_collab lang_ja [0x3042]
               = Inl (CollaboratorFailure [0x3042])"
    by (simp add: to_phones_def lang_ja_def lang_zh_def a_fails)
  show ?thesis
    unfolding new_cached_differs [OF cached_state_entry differs] set_text_fails [OF fails]
    by (simp add: log_call_def update_instance_def cached_state_def cached_instance_def)
qed

theorem failed_update_partial_witness:
  "map_of (entries (prompt_cache cached_state)) sample_key = Some 0
   \<and> heap cached_state 0 = Some cached_instance
   \<and> text_attr cached_instance = Some [0x304B]
   \<and> [0x304B] \<noteq> [0x3042 :: nat]
   \<and> to_phones sample_db flaky_collab lang_ja [0x3042] = Inl (CollaboratorFailure [0x3042])
   \<and> (\<exists>s'. ReferenceAudio_new sample_db flaky_collab sample_models sample_key [0x3042]
               lang_ja cached_state = (Inl (CollaboratorFailure [0x3042]), s')
          \<and> heap s' 0 = Some (cached_instance\<lparr>text_attr := Some [0x3042],
                                                language := Some lang_ja\<rparr>))"
proof -
  have differs: "[0x304B] \<noteq> [0x3042 :: nat] \<or> language cached_instance \<noteq> Some lang_ja"
    by simp
  have unequal: "[0x304B] \<noteq> [0x3042 :: nat]"
    by simp
  have fails: "to_phones sample_db flaky_collab lang_ja [0x3042]
               = Inl (CollaboratorFailure [0x3042])"
    by (simp add: to_phones_def lang_ja_def lang_zh_def a_fails)
  have partial: "\<exists>s'. ReferenceAudio_new sample_db flaky_collab sample_models sample_key [0x3042]
               lang_ja cached_state = (Inl (CollaboratorFailure [0x3042]), s')
          \<and> heap s' 0 = Some (cached_instance\<lparr>text_attr := Some [0x3042],
                                                language := Some lang_ja\<rparr>)"
    using failed_update_partial [OF cached_state_entry differs fails, of sample_models]
    apply (elim exE conjE)
    apply (rule exI)
    apply (rule conjI; assumption)
    done
  show ?thesis
    by (intro conjI cached_state_entry unequal fails partial)
qed

lemma init_initialized:
  assumes "heap s a = Some inst" and "initialized inst"
  shows "ReferenceAudio_init U C M a w t l s = (Inr (), s)"
  using assms by (simp add: ReferenceAudio_init_def)

text \<open>The rows that \<open>_extract_bert_features\<close> returns.\<close>

lemma extract_bert_features_value:
  assumes "extract_bert_features M a t s = (Inr feats, s')"
    and "heap s a = Some inst" and "phonemes_seq inst = Val [ids]"
  shows "\<exists>columns features.
           bert_last_hidden_state M t = Inr (columns, features)
         \<and> feats = (if length ids \<le> length features then take (length ids) features
                     else features @ replicate (length ids - length features)
                                       (replicate (BERT_FEATURE_DIM M) 0))"
proof (cases "bert_last_hidden_state M t")
  case (Inl e)
  with assms(1) show ?thesis
    by (simp add: extract_bert_features_def Let_def)
next
  case (Inr model)
  obtain columns features where model: "model = (columns, features)"
    by (cases model)
  have shape: "phonemes_shape1 inst = Inr (length ids)"
    using assms(3) by (simp add: phonemes_shape1_def)
  have here: "heap (log_call (BertRun t) s) a = Some inst"
    using assms(2) by (simp add: log_call_def)
  from assms(1) Inr model shape here
  have "feats = (if length ids \<le> length features then take (length ids) features
                 else features @ replicate (length ids - length features)
                                   (replicate (BERT_FEATURE_DIM M) 0))"
    by (auto simp: extract_bert_features_def Let_def split: if_splits)
  with Inr model show ?thesis
    by blast
qed

text \<open>What \<open>set_text\<close> leaves behind when it returns.\<close>

lemma set_text_returns:
  assumes heap: "heap s a = Some inst"
    and run: "set_text U C M a t l s = (Inr u, s')"
  shows "\<exists>ids feats.
           to_phones U C l t = Inr ids
         \<and> s' = s\<lparr>heap := (heap s)(a \<mapsto> inst\<lparr>text_attr := Some t, language := Some l,
                                              phonemes_seq := Val [ids],
                                              text_bert := Val feats\<rparr>),
                   calls := calls s @ (if l = lang_zh then [Phonemized l t, BertRun t]
                                       else [Phonemized l t])\<rparr>
         \<and> (l \<noteq> lang_zh \<longrightarrow>
               feats = replicate (length ids) (replicate (BERT_FEATURE_DIM M) 0))
         \<and> (l = lang_zh \<longrightarrow>
               (\<exists>columns features.
                   bert_last_hidden_state M t = Inr (columns, features)
                 \<and> feats = (if length ids \<le> length features then take (length ids) features
                             else features @ replicate (length ids - length features)
                                               (replicate (BERT_FEATURE_DIM M) 0))))"
proof -
  define i1 where "i1 = inst\<lparr>text_attr := Some t, language := Some l\<rparr>"
  define s2 where "s2 = s\<lparr>heap := (heap s)(a \<mapsto> i1), calls := calls s @ [Phonemized l t]\<rparr>"
  have s2: "log_call (Phonemized l t)
              (update_instance a (\<lambda>i. i\<lparr>text_attr := Some t, language := Some l\<rparr>) s) = s2"
    by (simp add: s2_def i1_def log_call_def update_instance_def heap)
  obtain ids where ids: "to_phones U C l t = Inr ids"
  proof (cases "to_phones U C l t")
    case (Inl e)
    from set_text_fails [OF this, of M a s] run show ?thesis
      by simp
  next
    case (Inr ids)
    then show ?thesis by (rule that)
  qed
  obtain row where row: "int64_row ids = Inr row"
    using run ids s2
    by (cases "int64_row ids")
      (auto simp: set_text_def Let_def to_phones_def split: if_splits)
  then have row_eq: "row = [ids]"
    by (rule int64_row_Inr)
  define i3 where "i3 = i1\<lparr>phonemes_seq := Val [ids]\<rparr>"
  define s3 where "s3 = s2\<lparr>heap := (heap s2)(a \<mapsto> i3)\<rparr>"
  have s3: "update_instance a (\<lambda>i. i\<lparr>phonemes_seq := Val [ids]\<rparr>) s2 = s3"
    by (simp add: s3_def i3_def update_instance_def s2_def)
  have obj3: "heap s3 a = Some i3" "phonemes_seq i3 = Val [ids]"
    by (simp_all add: s3_def i3_def)
  show ?thesis
  proof (cases "l = lang_zh")
    case False
    with ids have ja: "japanese_to_phones U C t = Inr ids"
      by (simp add: to_phones_def)
    define zeros where "zeros = replicate (length ids) (replicate (BERT_FEATURE_DIM M) (0 :: f32))"
    from run False ja row row_eq s2 s3 obj3
    have "s' = s3\<lparr>heap := (heap s3)(a \<mapsto> i3\<lparr>text_bert := Val zeros\<rparr>)\<rparr>"
      by (auto simp: set_text_def Let_def update_instance_def phonemes_shape1_def zeros_def)
    with ids False show ?thesis
      by (intro exI [of _ ids] exI [of _ zeros])
        (simp add: s3_def s2_def i3_def i1_def zeros_def)
  next
    case True
    with ids have zh: "chinese_to_phones U C t = Inr ids"
      by (simp add: to_phones_def)
    obtain rb s4 where bert: "extract_bert_features M a t s3 = (rb, s4)"
      by (cases "extract_bert_features M a t s3")
    have s4: "s4 = s3\<lparr>calls := calls s3 @ [BertRun t]\<rparr>"
      using extract_bert_features_state [OF bert] by (simp add: log_call_def)
    from run True zh row row_eq s2 s3 bert obtain feats where feats: "rb = Inr feats"
      by (cases rb) (auto simp: set_text_def Let_def)
    from run True zh row row_eq s2 s3 bert feats
    have s': "s' = s4\<lparr>heap := (heap s4)(a \<mapsto> i3\<lparr>text_bert := Val feats\<rparr>)\<rparr>"
      by (auto simp: set_text_def Let_def update_instance_def s4 s3_def)
    from extract_bert_features_value [OF bert [unfolded feats] obj3]
    have model: "\<exists>columns features.
                   bert_last_hidden_state M t = Inr (columns, features)
                 \<and> feats = (if length ids \<le> length features then take (length ids) features
                             else features @ replicate (length ids - length features)
                                               (replicate (BERT_FEATURE_DIM M) 0))"
      .
    from ids True model show ?thesis
      by (intro exI [of _ ids] exI [of _ feats])
        (simp add: s' s4 s3_def s2_def i3_def i1_def)
  qed
qed


text \<open>What the audio part of \<open>__init__\<close> leaves behind when it returns.\<close>

lemma init_audio_returns:
  assumes heap: "heap s a = Some inst"
    and run: "init_audio M a w s = (Inr u, s')"
  shows "\<exists>samples audio_16k outputs.
           load_audio M w = Inr samples \<and> soxr_resample M samples = Inr audio_16k
         \<and> cn_hubert_run M [audio_16k] = Inr outputs
         \<and> s' = s\<lparr>heap := (heap s)(a \<mapsto> inst\<lparr>audio_32k := Val samples,
                                              ssl_content := Val outputs,
                                              initialized := True\<rparr>),
                   cn_hubert := True,
                   calls := calls s @ [AudioLoaded w, Resampled]
                              @ (if cn_hubert s then [] else [HubertLoaded]) @ [HubertRun]\<rparr>"
proof -
  obtain samples where samples: "load_audio M w = Inr samples"
    using run by (cases "load_audio M w") (auto simp: init_audio_def Let_def)
  obtain audio_16k where audio: "soxr_resample M samples = Inr audio_16k"
    using run samples
    by (cases "soxr_resample M samples") (auto simp: init_audio_def Let_def)
  obtain outputs where outputs: "cn_hubert_run M [audio_16k] = Inr outputs"
    using run samples audio
    by (cases "cn_hubert_run M [audio_16k]")
      (auto simp: init_audio_def Let_def log_call_def update_instance_def
        split: if_splits option.splits)
  have "s' = s\<lparr>heap := (heap s)(a \<mapsto> inst\<lparr>audio_32k := Val samples,
                                              ssl_content := Val outputs,
                                              initialized := True\<rparr>),
                   cn_hubert := True,
                   calls := calls s @ [AudioLoaded w, Resampled]
                              @ (if cn_hubert s then [] else [HubertLoaded]) @ [HubertRun]\<rparr>"
  proof (cases "cn_hubert s")
    case True
    with run samples audio outputs heap show ?thesis
      by (auto simp: init_audio_def Let_def log_call_def update_instance_def)
  next
    case False
    show ?thesis
    proof (cases "load_cn_hubert M")
      case None
      with False run samples audio outputs heap show ?thesis
        by (auto simp: init_audio_def Let_def log_call_def update_instance_def)
    next
      case (Some e)
      with False run samples audio outputs heap show ?thesis
        by (auto simp: init_audio_def Let_def log_call_def update_instance_def)
    qed
  qed
  with samples audio outputs show ?thesis
    by blast
qed


text \<open>What \<open>__init__\<close> leaves behind when it returns for an object without
  \<open>_initialized\<close>.\<close>

lemma init_returns:
  assumes obj: "heap s a = Some inst"
    and fresh: "\<not> initialized inst"
    and run: "ReferenceAudio_init U C M a w t l s = (Inr u, s')"
  shows "\<exists>ids feats samples audio_16k outputs.
           to_phones U C l t = Inr ids
         \<and> (l \<noteq> lang_zh \<longrightarrow>
               feats = replicate (length ids) (replicate (BERT_FEATURE_DIM M) 0))
         \<and> (l = lang_zh \<longrightarrow>
               (\<exists>columns features.
                   bert_last_hidden_state M t = Inr (columns, features)
                 \<and> feats = (if length ids \<le> length features then take (length ids) features
                             else features @ replicate (length ids - length features)
                                               (replicate (BERT_FEATURE_DIM M) 0))))
         \<and> load_audio M w = Inr samples \<and> soxr_resample M samples = Inr audio_16k
         \<and> cn_hubert_run M [audio_16k] = Inr outputs
         \<and> s' = s\<lparr>heap := (heap s)(a \<mapsto> inst\<lparr>text_attr := Some t, language := Some l,
                                              phonemes_seq := Val [ids],
                                              text_bert := Val feats,
                                              audio_32k := Val samples,
                                              ssl_content := Val outputs,
                                              initialized := True\<rparr>),
                   cn_hubert := True,
                   calls := calls s @ (if l = lang_zh then [Phonemized l t, BertRun t]
                                       else [Phonemized l t])
                              @ [AudioLoaded w, Resampled]
                              @ (if cn_hubert s then [] else [HubertLoaded]) @ [HubertRun]\<rparr>"
proof -
  define i1 where "i1 = inst\<lparr>text_attr := Some t, phonemes_seq := PyNone,
    text_bert := PyNone, language := Some l\<rparr>"
  define s1 where "s1 = s\<lparr>heap := (heap s)(a \<mapsto> i1)\<rparr>"
  have s1: "update_instance a
              (\<lambda>i. i\<lparr>text_attr := Some t, phonemes_seq := PyNone, text_bert := PyNone,
                     language := Some l\<rparr>) s = s1"
    by (simp add: update_instance_def s1_def i1_def obj)
  obtain r2 s2 where set: "set_text U C M a t l s1 = (r2, s2)"
    by (cases "set_text U C M a t l s1")
  have obj1: "heap s1 a = Some i1"
    by (simp add: s1_def)
  from run obj fresh s1 set obtain u2 where r2: "r2 = Inr u2"
    and audio: "init_audio M a w s2 = (Inr u, s')"
    by (cases r2) (auto simp: ReferenceAudio_init_def Let_def)
  from set_text_returns [OF obj1 set [unfolded r2]] obtain ids feats
    where ids: "to_phones U C l t = Inr ids"
      and s2: "s2 = s1\<lparr>heap := (heap s1)(a \<mapsto> i1\<lparr>text_attr := Some t, language := Some l,
                                              phonemes_seq := Val [ids],
                                              text_bert := Val feats\<rparr>),
                   calls := calls s1 @ (if l = lang_zh then [Phonemized l t, BertRun t]
                                       else [Phonemized l t])\<rparr>"
      and zeros: "l \<noteq> lang_zh \<longrightarrow>
               feats = replicate (length ids) (replicate (BERT_FEATURE_DIM M) 0)"
      and model: "l = lang_zh \<longrightarrow>
               (\<exists>columns features.
                   bert_last_hidden_state M t = Inr (columns, features)
                 \<and> feats = (if length ids \<le> length features then take (length ids) features
                             else features @ replicate (length ids - length features)
                                               (replicate (BERT_FEATURE_DIM M) 0)))"
    by (elim exE conjE) (rule that)
  define i2 where "i2 = i1\<lparr>text_attr := Some t, language := Some l,
    phonemes_seq := Val [ids], text_bert := Val feats\<rparr>"
  have obj2: "heap s2 a = Some i2"
    by (simp add: s2 i2_def)
  from init_audio_returns [OF obj2 audio] obtain samples audio_16k outputs
    where samples: "load_audio M w = Inr samples"
      and resampled: "soxr_resample M samples = Inr audio_16k"
      and outputs: "cn_hubert_run M [audio_16k] = Inr outputs"
      and s': "s' = s2\<lparr>heap := (heap s2)(a \<mapsto> i2\<lparr>audio_32k := Val samples,
                                              ssl_content := Val outputs,
                                              initialized := True\<rparr>),
                   cn_hubert := True,
                   calls := calls s2 @ [AudioLoaded w, Resampled]
                              @ (if cn_hubert s2 then [] else [HubertLoaded]) @ [HubertRun]\<rparr>"
    by (elim exE conjE) (rule that)
  have final: "s' = s\<lparr>heap := (heap s)(a \<mapsto> inst\<lparr>text_attr := Some t, language := Some l,
                                              phonemes_seq := Val [ids],
                                              text_bert := Val feats,
                                              audio_32k := Val samples,
                                              ssl_content := Val outputs,
                                              initialized := True\<rparr>),
                   cn_hubert := True,
                   calls := calls s @ (if l = lang_zh then [Phonemized l t, BertRun t]
                                       else [Phonemized l t])
                              @ [AudioLoaded w, Resampled]
                              @ (if cn_hubert s then [] else [HubertLoaded]) @ [HubertRun]\<rparr>"
    by (simp add: s' s2 s1_def i2_def i1_def)
  show ?thesis
    by (intro exI [of _ ids] exI [of _ feats] exI [of _ samples] exI [of _ audio_16k]
        exI [of _ outputs] conjI ids zeros model samples resampled outputs final)
qed

lemma ka_stop_phones:
  "japanese_to_phones sample_db flaky_collab [0x304B, 0x3002] = Inr [1, 2, 4, 3, 0]"
proof -
  have blank: "strip sample_db [0x304B, 0x3002] \<noteq> []"
    by (simp add: strip_def sample_db_def sample_isspace_def)
  have norm: "text_normalize sample_db [0x304B, 0x3002] = [0x304B, 0x3002]"
    by (simp add: text_normalize_def re_sub_char_def consecutive_punctuation_def sample_db_def)
  have mark: "japanese_mark sample_db 0x3002"
    by (simp add: japanese_mark_def japanese_character_def sample_db_def)
  have after: "mark_after sample_db [[0x3002]] 0 = [[0x3002]]"
    "mark_after sample_db [[0x3002]] (Suc 0) = []"
    by (simp_all add: mark_after_def strip_def sample_db_def sample_isspace_def)
  have empty: "segment_phones sample_db flaky_collab True [] = Inr []"
    by (simp add: segment_phones_def)
  have "g2p sample_db flaky_collab [0x304B, 0x3002] True
        = Inr [[107], [97], [93], [78], [46]]"
    using blank
    by (simp add: g2p_def is_chinese_def japanese_processing_def norm kana_not_mark mark
        re_findall_chars_def flaky_segment empty after post_replace_phoneme_def rep_map_def)
  then show ?thesis
    by (simp add: japanese_to_phones_def phones_to_ids_def valid_phones_def flaky_collab_def
        sample_collab_def sample_symbols_def dom_def sym_UNK_def)
qed

text \<open>What \<open>__init__\<close> leaves behind, by its result.\<close>

lemma init_cases:
  assumes obj: "heap s a = Some inst"
    and fresh: "\<not> initialized inst"
    and run: "ReferenceAudio_init U C M a w t l s = (r, s')"
  shows "prompt_cache s' = prompt_cache s \<and> next_addr s' = next_addr s
       \<and> (\<forall>b. b \<noteq> a \<longrightarrow> heap s' b = heap s b)
       \<and> (\<exists>inst'. heap s' a = Some inst' \<and> text_attr inst' = Some t
              \<and> language inst' = Some l
              \<and> (\<forall>u. r = Inr u \<longrightarrow> initialized inst')
              \<and> (\<forall>e. r = Inl e \<longrightarrow> \<not> initialized inst'))"
proof -
  define i1 where "i1 = inst\<lparr>text_attr := Some t, phonemes_seq := PyNone,
    text_bert := PyNone, language := Some l\<rparr>"
  define s1 where "s1 = s\<lparr>heap := (heap s)(a \<mapsto> i1)\<rparr>"
  have s1: "update_instance a
              (\<lambda>i. i\<lparr>text_attr := Some t, phonemes_seq := PyNone, text_bert := PyNone,
                     language := Some l\<rparr>) s = s1"
    by (simp add: update_instance_def s1_def i1_def obj)
  obtain r2 s2 where set: "set_text U C M a t l s1 = (r2, s2)"
    by (cases "set_text U C M a t l s1")
  have obj1: "heap s1 a = Some i1"
    by (simp add: s1_def)
  from set_text_cases [OF obj1 set] obtain i2 evs
    where s2: "s2 = s1\<lparr>heap := (heap s1)(a \<mapsto> i2), calls := calls s1 @ evs\<rparr>"
      and fields2: "text_attr i2 = Some t" "language i2 = Some l"
      and flag2: "initialized i2 = initialized i1"
    by blast
  have fresh2: "\<not> initialized i2"
    using flag2 fresh by (simp add: i1_def)
  have obj2: "heap s2 a = Some i2"
    by (simp add: s2)
  show ?thesis
  proof (cases r2)
    case (Inl e)
    with run obj fresh s1 set have "r = Inl e" "s' = s2"
      by (simp_all add: ReferenceAudio_init_def Let_def)
    then show ?thesis
      using fields2 fresh2 by (simp add: s2 s1_def)
  next
    case (Inr u)
    with run obj fresh s1 set have audio: "init_audio M a w s2 = (r, s')"
      by (simp add: ReferenceAudio_init_def Let_def)
    from init_audio_cases [OF obj2 audio] obtain i3 evs3 hub
      where s3: "s' = s2\<lparr>heap := (heap s2)(a \<mapsto> i3), cn_hubert := hub,
                           calls := calls s2 @ evs3\<rparr>"
        and fields3: "text_attr i3 = text_attr i2" "language i3 = language i2"
        and ok: "\<forall>u. r = Inr u \<longrightarrow> initialized i3"
        and failed: "\<forall>e. r = Inl e \<longrightarrow> initialized i3 = initialized i2"
      by blast
    show ?thesis
      using fields2 fields3 ok failed fresh2 by (simp add: s3 s2 s1_def)
  qed
qed

text \<open>
  Claim C3, amended: for every key in the cache, a request (the constructor call) with a
  different text or a different language that returns, returns the cached object
  itself; no object is made, no other object changes and the key stays cached; the
  object's text and language are those of the request, its phoneme-id sequence is what
  the language's phonemizer gives for the text, and its semantic feature matrix is, for
  \<open>zh\<close>, the hidden states of the text model cut or padded with rows of zeros to one row
  per phoneme id and, for any other language, that many rows of zeros. If the object is
  initialized, nothing else of it changes: its waveform, its audio embedding and its
  flag are the stored ones, and the log gains the phonemization and the text-model call
  only, no audio call. If the object is not initialized (its first \<open>__init__\<close> raised),
  \<open>__init__\<close> runs again after the update: the text is phonemized a second time, the
  waveform is loaded and resampled and the audio embedding is computed, and the object
  becomes initialized.
\<close>

theorem update_in_place:
  assumes cached: "map_of (entries (prompt_cache s)) k = Some a"
    and obj: "heap s a = Some inst"
    and old: "text_attr inst = Some t0"
    and differs: "t0 \<noteq> t \<or> language inst \<noteq> Some l"
    and ok: "ReferenceAudio U C M k t l s = (Inr b, s')"
  shows "b = a
       \<and> map_of (entries (prompt_cache s')) = map_of (entries (prompt_cache s))
       \<and> next_addr s' = next_addr s
       \<and> (\<forall>c. c \<noteq> a \<longrightarrow> heap s' c = heap s c)
       \<and> (\<exists>ids feats.
             to_phones U C l t = Inr ids
           \<and> (l \<noteq> lang_zh \<longrightarrow>
                 feats = replicate (length ids) (replicate (BERT_FEATURE_DIM M) 0))
           \<and> (l = lang_zh \<longrightarrow>
                 (\<exists>columns features.
                     bert_last_hidden_state M t = Inr (columns, features)
                   \<and> feats = (if length ids \<le> length features
                               then take (length ids) features
                               else features @ replicate (length ids - length features)
                                                 (replicate (BERT_FEATURE_DIM M) 0))))
           \<and> (initialized inst \<longrightarrow>
                 heap s' a = Some (inst\<lparr>text_attr := Some t, language := Some l,
                                         phonemes_seq := Val [ids],
                                         text_bert := Val feats\<rparr>)
               \<and> cn_hubert s' = cn_hubert s
               \<and> calls s' = calls s @ (if l = lang_zh then [Phonemized l t, BertRun t]
                                        else [Phonemized l t]))
           \<and> (\<not> initialized inst \<longrightarrow>
                 (\<exists>samples audio_16k outputs.
                     load_audio M k = Inr samples
                   \<and> soxr_resample M samples = Inr audio_16k
                   \<and> cn_hubert_run M [audio_16k] = Inr outputs
                   \<and> heap s' a = Some (inst\<lparr>text_attr := Some t, language := Some l,
                                             phonemes_seq := Val [ids],
                                             text_bert := Val feats,
                                             audio_32k := Val samples,
                                             ssl_content := Val outputs,
                                             initialized := True\<rparr>)
                   \<and> calls s' = calls s
                        @ (if l = lang_zh then [Phonemized l t, BertRun t]
                           else [Phonemized l t])
                        @ (if l = lang_zh then [Phonemized l t, BertRun t]
                           else [Phonemized l t])
                        @ [AudioLoaded k, Resampled]
                        @ (if cn_hubert s then [] else [HubertLoaded]) @ [HubertRun])))"
proof -
  define s0 where "s0 = s\<lparr>prompt_cache := (prompt_cache s)
                        \<lparr>entries := lru_without k (entries (prompt_cache s)) @ [(k, a)]\<rparr>\<rparr>"
  obtain r2 s2 where set: "set_text U C M a t l s0 = (r2, s2)"
    by (cases "set_text U C M a t l s0")
  have new: "ReferenceAudio_new U C M k t l s =
             (case r2 of Inl e \<Rightarrow> (Inl e, s2) | Inr u \<Rightarrow> (Inr a, s2))"
    unfolding new_cached_differs [OF cached obj old differs] s0_def [symmetric] set
    by (simp split: sum.splits)
  with ok obtain u where r2: "r2 = Inr u"
    by (cases r2) (auto simp: ReferenceAudio_def)
  with new have new': "ReferenceAudio_new U C M k t l s = (Inr a, s2)"
    by simp
  obtain r3 s3 where init: "ReferenceAudio_init U C M a k t l s2 = (r3, s3)"
    by (cases "ReferenceAudio_init U C M a k t l s2")
  from ok new' init have whole: "b = a \<and> s' = s3 \<and> (\<exists>u3. r3 = Inr u3)"
    by (cases r3) (auto simp: ReferenceAudio_def)
  then have b: "b = a" and s': "s' = s3"
    by simp_all
  from whole obtain u3 where r3: "r3 = Inr u3"
    by blast
  have obj0: "heap s0 a = Some inst"
    by (simp add: s0_def obj)
  from set_text_returns [OF obj0 set [unfolded r2]] obtain ids feats
    where ids: "to_phones U C l t = Inr ids"
      and s2: "s2 = s0\<lparr>heap := (heap s0)(a \<mapsto> inst\<lparr>text_attr := Some t, language := Some l,
                                              phonemes_seq := Val [ids],
                                              text_bert := Val feats\<rparr>),
                   calls := calls s0 @ (if l = lang_zh then [Phonemized l t, BertRun t]
                                       else [Phonemized l t])\<rparr>"
      and zeros: "l \<noteq> lang_zh \<longrightarrow>
               feats = replicate (length ids) (replicate (BERT_FEATURE_DIM M) 0)"
      and model: "l = lang_zh \<longrightarrow>
               (\<exists>columns features.
                   bert_last_hidden_state M t = Inr (columns, features)
                 \<and> feats = (if length ids \<le> length features then take (length ids) features
                             else features @ replicate (length ids - length features)
                                               (replicate (BERT_FEATURE_DIM M) 0)))"
    by (elim exE conjE) (rule that)
  define i2 where "i2 = inst\<lparr>text_attr := Some t, language := Some l,
    phonemes_seq := Val [ids], text_bert := Val feats\<rparr>"
  have obj2: "heap s2 a = Some i2"
    by (simp add: s2 i2_def)
  have flag2: "initialized i2 = initialized inst"
    by (simp add: i2_def)
  have cache3: "prompt_cache s3 = prompt_cache s0 \<and> next_addr s3 = next_addr s
                \<and> (\<forall>c. c \<noteq> a \<longrightarrow> heap s3 c = heap s c)"
  proof (cases "initialized inst")
    case True
    with init_initialized [OF obj2, of U C M k t l] init flag2 have "s3 = s2"
      by simp
    then show ?thesis
      by (simp add: s2 s0_def)
  next
    case False
    with flag2 have "\<not> initialized i2"
      by simp
    from init_cases [OF obj2 this init] show ?thesis
      by (simp add: s2 s0_def)
  qed
  have cache: "map_of (entries (prompt_cache s')) = map_of (entries (prompt_cache s))"
  proof
    fix k'
    have "entries (prompt_cache s') = lru_without k (entries (prompt_cache s)) @ [(k, a)]"
      using cache3 by (simp add: s' s0_def)
    then have "map_of (entries (prompt_cache s')) k'
               = (if k' = k then Some a else map_of (entries (prompt_cache s)) k')"
      by (simp only: map_of_refreshed)
    with cached show "map_of (entries (prompt_cache s')) k' = map_of (entries (prompt_cache s)) k'"
      by auto
  qed
  have next_addr: "next_addr s' = next_addr s"
    using cache3 by (simp add: s')
  have others: "\<forall>c. c \<noteq> a \<longrightarrow> heap s' c = heap s c"
    using cache3 by (simp add: s')
  have kept: "initialized inst \<longrightarrow>
                 heap s' a = Some (inst\<lparr>text_attr := Some t, language := Some l,
                                         phonemes_seq := Val [ids],
                                         text_bert := Val feats\<rparr>)
               \<and> cn_hubert s' = cn_hubert s
               \<and> calls s' = calls s @ (if l = lang_zh then [Phonemized l t, BertRun t]
                                        else [Phonemized l t])"
  proof
    assume "initialized inst"
    with init_initialized [OF obj2, of U C M k t l] init flag2 have "s3 = s2"
      by simp
    then show "heap s' a = Some (inst\<lparr>text_attr := Some t, language := Some l,
                                         phonemes_seq := Val [ids],
                                         text_bert := Val feats\<rparr>)
               \<and> cn_hubert s' = cn_hubert s
               \<and> calls s' = calls s @ (if l = lang_zh then [Phonemized l t, BertRun t]
                                        else [Phonemized l t])"
      by (simp add: s' s2 s0_def)
  qed
  have redone: "\<not> initialized inst \<longrightarrow>
                 (\<exists>samples audio_16k outputs.
                     load_audio M k = Inr samples
                   \<and> soxr_resample M samples = Inr audio_16k
                   \<and> cn_hubert_run M [audio_16k] = Inr outputs
                   \<and> heap s' a = Some (inst\<lparr>text_attr := Some t, language := Some l,
                                             phonemes_seq := Val [ids],
                                             text_bert := Val feats,
                                             audio_32k := Val samples,
                                             ssl_content := Val outputs,
                                             initialized := True\<rparr>)
                   \<and> calls s' = calls s
                        @ (if l = lang_zh then [Phonemized l t, BertRun t]
                           else [Phonemized l t])
                        @ (if l = lang_zh then [Phonemized l t, BertRun t]
                           else [Phonemized l t])
                        @ [AudioLoaded k, Resampled]
                        @ (if cn_hubert s then [] else [HubertLoaded]) @ [HubertRun])"
  proof
    assume "\<not> initialized inst"
    with flag2 have fresh2: "\<not> initialized i2"
      by simp
    from init_returns [OF obj2 fresh2 init [unfolded r3]]
    obtain ids' feats' samples audio_16k outputs
      where ids': "to_phones U C l t = Inr ids'"
        and zeros': "l \<noteq> lang_zh \<longrightarrow>
               feats' = replicate (length ids') (replicate (BERT_FEATURE_DIM M) 0)"
        and model': "l = lang_zh \<longrightarrow>
               (\<exists>columns features.
                   bert_last_hidden_state M t = Inr (columns, features)
                 \<and> feats' = (if length ids' \<le> length features
                             then take (length ids') features
                             else features @ replicate (length ids' - length features)
                                               (replicate (BERT_FEATURE_DIM M) 0)))"
        and samples: "load_audio M k = Inr samples"
        and resampled: "soxr_resample M samples = Inr audio_16k"
        and outputs: "cn_hubert_run M [audio_16k] = Inr outputs"
        and s3: "s3 = s2\<lparr>heap := (heap s2)(a \<mapsto> i2\<lparr>text_attr := Some t, language := Some l,
                                              phonemes_seq := Val [ids'],
                                              text_bert := Val feats',
                                              audio_32k := Val samples,
                                              ssl_content := Val outputs,
                                              initialized := True\<rparr>),
                   cn_hubert := True,
                   calls := calls s2 @ (if l = lang_zh then [Phonemized l t, BertRun t]
                                       else [Phonemized l t])
                              @ [AudioLoaded k, Resampled]
                              @ (if cn_hubert s2 then [] else [HubertLoaded]) @ [HubertRun]\<rparr>"
      by (elim exE conjE) (rule that)
    from ids ids' have same_ids: "ids' = ids"
      by simp
    have same_feats: "feats' = feats"
    proof (cases "l = lang_zh")
      case True
      with model model' same_ids show ?thesis
        by auto
    next
      case False
      with zeros zeros' same_ids show ?thesis
        by simp
    qed
    have entry: "heap s' a = Some (inst\<lparr>text_attr := Some t, language := Some l,
                                             phonemes_seq := Val [ids],
                                             text_bert := Val feats,
                                             audio_32k := Val samples,
                                             ssl_content := Val outputs,
                                             initialized := True\<rparr>)"
      by (simp add: s' s3 i2_def same_ids same_feats)
    have log: "calls s' = calls s
                        @ (if l = lang_zh then [Phonemized l t, BertRun t]
                           else [Phonemized l t])
                        @ (if l = lang_zh then [Phonemized l t, BertRun t]
                           else [Phonemized l t])
                        @ [AudioLoaded k, Resampled]
                        @ (if cn_hubert s then [] else [HubertLoaded]) @ [HubertRun]"
      by (simp add: s' s3 s2 s0_def)
    show "\<exists>samples audio_16k outputs.
                     load_audio M k = Inr samples
                   \<and> soxr_resample M samples = Inr audio_16k
                   \<and> cn_hubert_run M [audio_16k] = Inr outputs
                   \<and> heap s' a = Some (inst\<lparr>text_attr := Some t, language := Some l,
                                             phonemes_seq := Val [ids],
                                             text_bert := Val feats,
                                             audio_32k := Val samples,
                                             ssl_content := Val outputs,
                                             initialized := True\<rparr>)
                   \<and> calls s' = calls s
                        @ (if l = lang_zh then [Phonemized l t, BertRun t]
                           else [Phonemized l t])
                        @ (if l = lang_zh then [Phonemized l t, BertRun t]
                           else [Phonemized l t])
                        @ [AudioLoaded k, Resampled]
                        @ (if cn_hubert s then [] else [HubertLoaded]) @ [HubertRun]"
      by (intro exI [of _ samples] exI [of _ audio_16k] exI [of _ outputs] conjI
          samples resampled outputs entry log)
  qed
  show ?thesis
    by (intro conjI b cache next_addr others exI [of _ ids] exI [of _ feats] ids zeros model
        kept redone)
qed

lemma han_phones: "chinese_to_phones sample_db flaky_collab [0x6F22] = Inr [5, 6]"
proof -
  have blank: "strip sample_db [0x6F22] \<noteq> []"
    by (simp add: strip_def sample_db_def sample_isspace_def)
  have split: "split_punctuation [0x6F22] = [[0x6F22]]"
    by (subst split_punctuation.simps) (simp add: punctuation_def)
  have syllable: "chinese_g2p flaky_collab [0x6F22] = Inr [[104], [97, 110, 52]]"
    by (simp add: chinese_g2p_def flaky_collab_def sample_collab_def syllable_phonemes_def
        tone_digit_def Let_def)
  have "ChineseG2P_g2p sample_db flaky_collab [0x6F22] = Inr [[104], [97, 110, 52]]"
    using blank
    by (simp add: ChineseG2P_g2p_def split fullmatch_punctuation_def punctuation_def syllable
        post_replace_phoneme_def rep_map_def)
  then show ?thesis
    by (simp add: chinese_to_phones_def phones_to_ids_def valid_phones_def flaky_collab_def
        sample_collab_def sample_symbols_def dom_def)
qed

theorem update_in_place_witness:
  "map_of (entries (prompt_cache cached_state)) sample_key = Some 0
   \<and> heap cached_state 0 = Some cached_instance
   \<and> text_attr cached_instance = Some [0x304B]
   \<and> [0x304B] \<noteq> [0x6F22 :: nat]
   \<and> initialized cached_instance
   \<and> fst (ReferenceAudio sample_db flaky_collab sample_models sample_key [0x6F22] lang_zh
            cached_state) = Inr 0
   \<and> to_phones sample_db flaky_collab lang_zh [0x6F22] = Inr [5, 6]
   \<and> bert_last_hidden_state sample_models [0x6F22] = Inr (2, [[5, 5]])
   \<and> heap (snd (ReferenceAudio sample_db flaky_collab sample_models sample_key [0x6F22]
                  lang_zh cached_state)) 0
       = Some (cached_instance\<lparr>text_attr := Some [0x6F22], language := Some lang_zh,
                               phonemes_seq := Val [[5, 6]],
                               text_bert := Val [[5, 5], [0, 0]]\<rparr>)
   \<and> calls (snd (ReferenceAudio sample_db flaky_collab sample_models sample_key [0x6F22]
                   lang_zh cached_state))
       = calls cached_state @ [Phonemized lang_zh [0x6F22], BertRun [0x6F22]]"
proof -
  define result where "result = ReferenceAudio sample_db flaky_collab sample_models
    sample_key [0x6F22] lang_zh cached_state"
  have differs: "[0x304B] \<noteq> [0x6F22 :: nat] \<or> language cached_instance \<noteq> Some lang_zh"
    by simp
  have unequal: "[0x304B] \<noteq> [0x6F22 :: nat]"
    by simp
  have ready: "initialized cached_instance"
    by (simp add: cached_instance_def)
  have phones: "to_phones sample_db flaky_collab lang_zh [0x6F22] = Inr [5, 6]"
    by (simp add: to_phones_def han_phones)
  have hidden: "bert_last_hidden_state sample_models [0x6F22] = Inr (2, [[5, 5]])"
    by (simp add: sample_models_def)
  have returned: "fst result = Inr 0"
    unfolding result_def ReferenceAudio_def new_cached_differs [OF cached_state_entry differs]
    by (simp add: set_text_def extract_bert_features_def ReferenceAudio_init_def Let_def
        to_phones_def han_phones int64_row_def
        update_instance_def log_call_def phonemes_shape1_def cached_state_def
        cached_instance_def sample_models_def)
  then have ok: "ReferenceAudio sample_db flaky_collab sample_models sample_key [0x6F22]
                   lang_zh cached_state = (Inr 0, snd result)"
    by (simp add: result_def prod_eq_iff)
  note facts = update_in_place [OF cached_state_entry differs ok]
  note entry = facts [THEN conjunct2, THEN conjunct2, THEN conjunct2, THEN conjunct2]
  from entry obtain ids feats
    where ids: "to_phones sample_db flaky_collab lang_zh [0x6F22] = Inr ids"
      and model: "lang_zh = lang_zh \<longrightarrow>
                 (\<exists>columns features.
                     bert_last_hidden_state sample_models [0x6F22] = Inr (columns, features)
                   \<and> feats = (if length ids \<le> length features
                               then take (length ids) features
                               else features @ replicate (length ids - length features)
                                                 (replicate (BERT_FEATURE_DIM sample_models) 0)))"
      and kept: "initialized cached_instance \<longrightarrow>
                 heap (snd result) 0
                   = Some (cached_instance\<lparr>text_attr := Some [0x6F22],
                                           language := Some lang_zh,
                                           phonemes_seq := Val [ids],
                                           text_bert := Val feats\<rparr>)
               \<and> cn_hubert (snd result) = cn_hubert cached_state
               \<and> calls (snd result)
                   = calls cached_state
                       @ (if lang_zh = lang_zh
                          then [Phonemized lang_zh [0x6F22], BertRun [0x6F22]]
                          else [Phonemized lang_zh [0x6F22]])"
    by (elim exE conjE) (rule that)
  from ids phones have ids': "ids = [5, 6]"
    by simp
  from model hidden have feats': "feats = [[5, 5], [0, 0]]"
    by (simp add: ids' sample_models_def replicate_two)
  from kept ready
  have here: "heap (snd result) 0
       = Some (cached_instance\<lparr>text_attr := Some [0x6F22], language := Some lang_zh,
                               phonemes_seq := Val [[5, 6]],
                               text_bert := Val [[5, 5], [0, 0]]\<rparr>)"
    and log: "calls (snd result)
       = calls cached_state @ [Phonemized lang_zh [0x6F22], BertRun [0x6F22]]"
    by (simp_all add: ids' feats')
  show ?thesis
    unfolding result_def [symmetric]
    by (intro conjI cached_state_entry unequal ready returned phones hidden here log)
qed

lemma half_state_reached:
  "ReferenceAudio sample_db flaky_collab deaf_models sample_key [0x304B] lang_ja
     (initial_state 10) = (Inl (CollaboratorFailure []), half_state)"
  by (simp add: ReferenceAudio_def ReferenceAudio_new_def ReferenceAudio_init_def
      init_audio_def set_text_def initial_state_def lru_contains_def lru_keys_def lru_empty_def
      lru_set_def lru_without_def Let_def bare_instance_def update_instance_def log_call_def
      lang_ja_def lang_zh_def ka_phones [unfolded lang_ja_def] int64_row_def phonemes_shape1_def
      sample_models_def deaf_models_def half_state_def half_instance_def replicate_two)

lemma half_state_entry:
  "map_of (entries (prompt_cache half_state)) sample_key = Some 0"
  "heap half_state 0 = Some half_instance"
  "text_attr half_instance = Some [0x304B]"
  by (simp_all add: half_state_def half_instance_def)

lemma replicate_five: "replicate 5 x = [x, x, x, x, x]"
  by (simp add: eval_nat_numeral)

text \<open>
  Claim C3 as stated preserves the waveform and the audio embedding of every cached key
  on a request with a different text. The first request for the key, with an encoder
  that raises, ends in that exception and leaves the key cached on an object that has
  its text and the waveform of four samples but no embedding and no \<open>_initialized\<close>. The
  next request for the key, with another text and with a loader that now finds other
  samples, returns that object: its waveform is the newly loaded one, its embedding is
  newly computed, and the log has gained the loading, the resampling and the encoder
  run.
\<close>

theorem reloaded_audio_counterexample:
  "ReferenceAudio sample_db flaky_collab deaf_models sample_key [0x304B] lang_ja
     (initial_state 10) = (Inl (CollaboratorFailure []), half_state)
   \<and> map_of (entries (prompt_cache half_state)) sample_key = Some 0
   \<and> map_option text_attr (heap half_state 0) = Some (Some [0x304B])
   \<and> map_option audio_32k (heap half_state 0) = Some (Val [1, 2, 3, 4])
   \<and> map_option ssl_content (heap half_state 0) = Some Absent
   \<and> fst (ReferenceAudio sample_db flaky_collab retaken_models sample_key [0x304B, 0x3002]
            lang_ja half_state) = Inr 0
   \<and> map_option audio_32k
        (heap (snd (ReferenceAudio sample_db flaky_collab retaken_models sample_key
                      [0x304B, 0x3002] lang_ja half_state)) 0) = Some (Val [9, 9, 9, 9])
   \<and> map_option ssl_content
        (heap (snd (ReferenceAudio sample_db flaky_collab retaken_models sample_key
                      [0x304B, 0x3002] lang_ja half_state)) 0) = Some (Val [[[7]]])
   \<and> calls (snd (ReferenceAudio sample_db flaky_collab retaken_models sample_key
                    [0x304B, 0x3002] lang_ja half_state))
       = calls half_state
           @ [Phonemized lang_ja [0x304B, 0x3002], Phonemized lang_ja [0x304B, 0x3002],
              AudioLoaded sample_key, Resampled, HubertRun]"
proof -
  have differs: "[0x304B] \<noteq> [0x304B, 0x3002 :: nat] \<or> language half_instance \<noteq> Some lang_ja"
    by simp
  have again: "ReferenceAudio sample_db flaky_collab retaken_models sample_key [0x304B, 0x3002]
            lang_ja half_state
        = (Inr 0,
           \<lparr> prompt_cache = \<lparr> capacity = 10, entries = [(sample_key, 0)] \<rparr>,
             heap = [0 \<mapsto> \<lparr> text_attr = Some [0x304B, 0x3002], language = Some lang_ja,
                             phonemes_seq = Val [[1, 2, 4, 3, 0]],
                             text_bert = Val [[0, 0], [0, 0], [0, 0], [0, 0], [0, 0]],
                             audio_32k = Val [9, 9, 9, 9], ssl_content = Val [[[7]]],
                             initialized = True \<rparr>],
             next_addr = 1, cn_hubert = True,
             calls = [Phonemized lang_ja [0x304B], AudioLoaded sample_key, Resampled,
                      HubertLoaded, HubertRun,
                      Phonemized lang_ja [0x304B, 0x3002], Phonemized lang_ja [0x304B, 0x3002],
                      AudioLoaded sample_key, Resampled, HubertRun] \<rparr>)"
    unfolding ReferenceAudio_def new_cached_differs [OF half_state_entry differs]
    by (simp add: ReferenceAudio_init_def init_audio_def set_text_def Let_def
        update_instance_def log_call_def lru_without_def
        lang_ja_def lang_zh_def ka_stop_phones [unfolded lang_ja_def] int64_row_def
        phonemes_shape1_def sample_models_def retaken_models_def half_state_def
        half_instance_def replicate_two replicate_five)
  show ?thesis
    unfolding again
    by (simp add: half_state_reached half_state_def half_instance_def)
qed

text \<open>What a successful \<open>__new__\<close> leaves behind in a cache that can hold an entry.\<close>

lemma lru_set_last:
  assumes "0 < capacity c"
  shows "\<exists>es. entries (lru_set c k a) = es @ [(k, a)] \<and> k \<notin> fst ` set es"
proof -
  define es where "es = lru_without k (entries c)"
  have no_k: "k \<notin> fst ` set es"
    by (auto simp: es_def lru_without_def)
  show ?thesis
  proof (cases "capacity c < length (es @ [(k, a)])")
    case True
    with assms have "es \<noteq> []"
      by auto
    then have "tl (es @ [(k, a)]) = tl es @ [(k, a)]"
      by simp
    moreover have "set (tl es) \<subseteq> set es"
      by (cases es) auto
    then have "k \<notin> fst ` set (tl es)"
      using no_k by blast
    ultimately show ?thesis
      using True by (auto simp: lru_set_def Let_def es_def [symmetric])
  next
    case False
    with no_k show ?thesis
      by (auto simp: lru_set_def Let_def es_def [symmetric])
  qed
qed

lemma new_post:
  assumes cap: "0 < capacity (prompt_cache s)"
    and run: "ReferenceAudio_new U C M k t l s = (Inr a, s1)"
  shows "capacity (prompt_cache s1) = capacity (prompt_cache s)
       \<and> (\<exists>es. entries (prompt_cache s1) = es @ [(k, a)] \<and> k \<notin> fst ` set es)
       \<and> (\<exists>inst. heap s1 a = Some inst
              \<and> (initialized inst \<longrightarrow> text_attr inst = Some t \<and> language inst = Some l))"
proof (cases "lru_contains (prompt_cache s) k")
  case False
  with run have a: "a = next_addr s"
    and s1: "s1 = s\<lparr>heap := (heap s)(next_addr s \<mapsto> bare_instance),
                     next_addr := Suc (next_addr s),
                     prompt_cache := lru_set (prompt_cache s) k (next_addr s)\<rparr>"
    by (auto simp: ReferenceAudio_new_def Let_def)
  show ?thesis
    using lru_set_last [OF cap, of k a]
    by (simp add: s1 a lru_set_capacity bare_instance_def)
next
  case True
  then obtain a0 where cached: "map_of (entries (prompt_cache s)) k = Some a0"
    by (auto simp: lru_contains_def lru_keys_def weak_map_of_SomeI
        dest!: weak_map_of_SomeI)
  define s0 where "s0 = s\<lparr>prompt_cache := (prompt_cache s)
                        \<lparr>entries := lru_without k (entries (prompt_cache s)) @ [(k, a0)]\<rparr>\<rparr>"
  have no_k: "k \<notin> fst ` set (lru_without k (entries (prompt_cache s)))"
    by (auto simp: lru_without_def)
  from run True cached have get: "lru_get (prompt_cache s) k = Inr (a0, prompt_cache s0)"
    by (simp add: lru_get_def s0_def)
  obtain inst where obj: "heap s a0 = Some inst"
    using run True get by (cases "heap s a0") (auto simp: ReferenceAudio_new_def Let_def s0_def)
  obtain t0 where old: "text_attr inst = Some t0"
    using run True get obj
    by (cases "text_attr inst") (auto simp: ReferenceAudio_new_def Let_def s0_def)
  show ?thesis
  proof (cases "t0 \<noteq> t \<or> language inst \<noteq> Some l")
    case differs: True
    obtain r s2 where set: "set_text U C M a0 t l s0 = (r, s2)"
      by (cases "set_text U C M a0 t l s0")
    have "ReferenceAudio_new U C M k t l s =
          (case r of Inl e \<Rightarrow> (Inl e, s2) | Inr u \<Rightarrow> (Inr a0, s2))"
      unfolding new_cached_differs [OF cached obj old differs] s0_def [symmetric] set
      by (simp split: sum.splits)
    with run have a: "a = a0" and s1: "s1 = s2"
      by (cases r; simp)+
    have obj0: "heap s0 a0 = Some inst"
      by (simp add: s0_def obj)
    from set_text_cases [OF obj0 set] obtain inst' evs
      where s2: "s2 = s0\<lparr>heap := (heap s0)(a0 \<mapsto> inst'), calls := calls s0 @ evs\<rparr>"
        and fields: "text_attr inst' = Some t" "language inst' = Some l"
      by blast
    show ?thesis
      using no_k fields by (simp add: s1 s2 a s0_def)
  next
    case same: False
    then have "text_attr inst = Some t" "language inst = Some l"
      using old by auto
    from new_cached_same [OF cached obj this, of U C M] run
    have "a = a0" "s1 = s0"
      by (simp_all add: s0_def)
    then show ?thesis
      using no_k obj same old by (simp add: s0_def)
  qed
qed

lemma lru_without_last:
  "k \<notin> fst ` set es \<Longrightarrow> lru_without k (es @ [(k, a)]) = es"
  by (simp add: lru_without_def) (induction es; auto)

lemma map_of_last: "k \<notin> fst ` set es \<Longrightarrow> map_of (es @ [(k, a)]) k = Some a"
  by (induction es) auto

text \<open>A request for a key whose entry is the most recently used one, is initialized and
  has the text and the language of the request changes nothing.\<close>

lemma request_settled:
  assumes last: "entries (prompt_cache s) = es @ [(k, a)]" "k \<notin> fst ` set es"
    and obj: "heap s a = Some inst"
    and fields: "text_attr inst = Some t" "language inst = Some l"
    and flag: "initialized inst"
  shows "ReferenceAudio U C M k t l s = (Inr a, s)"
proof -
  have cached: "map_of (entries (prompt_cache s)) k = Some a"
    unfolding last(1) using last(2) by (rule map_of_last)
  have "s\<lparr>prompt_cache := (prompt_cache s)
            \<lparr>entries := lru_without k (entries (prompt_cache s)) @ [(k, a)]\<rparr>\<rparr> = s"
    using last by (simp add: lru_without_last)
  with new_cached_same [OF cached obj fields, of U C M]
  have "ReferenceAudio_new U C M k t l s = (Inr a, s)"
    by simp
  with init_initialized [OF obj flag, of U C M k t l] show ?thesis
    by (simp add: ReferenceAudio_def)
qed

text \<open>
  Claim C4: for every audio path, text and language, when a request in a cache that can
  hold an entry has returned an entry, the same request made again returns the same
  object and leaves the whole state as it is: the entry, every other object, the cache
  and the log of collaborator calls, so that nothing is computed again.
\<close>

theorem same_request_twice:
  assumes cap: "0 < capacity (prompt_cache s)"
    and first: "ReferenceAudio U C M k t l s = (Inr a, s1)"
  shows "ReferenceAudio U C M k t l s1 = (Inr a, s1)"
proof -
  obtain r0 s0 where new: "ReferenceAudio_new U C M k t l s = (r0, s0)"
    by (cases "ReferenceAudio_new U C M k t l s")
  with first have r0: "r0 = Inr a"
    by (cases r0) (auto simp: ReferenceAudio_def split: prod.splits sum.splits)
  obtain r1 where init: "ReferenceAudio_init U C M a k t l s0 = (r1, s1)"
    using first new r0
    by (cases "ReferenceAudio_init U C M a k t l s0")
      (auto simp: ReferenceAudio_def split: sum.splits)
  have r1: "\<exists>u. r1 = Inr u"
    using first new r0 init by (cases r1) (auto simp: ReferenceAudio_def)
  from new_post [OF cap new [unfolded r0]] obtain es inst0
    where last0: "entries (prompt_cache s0) = es @ [(k, a)]" "k \<notin> fst ` set es"
      and obj0: "heap s0 a = Some inst0"
      and settled0: "initialized inst0 \<longrightarrow> text_attr inst0 = Some t \<and> language inst0 = Some l"
    by blast
  have "\<exists>inst. heap s1 a = Some inst \<and> text_attr inst = Some t \<and> language inst = Some l
          \<and> initialized inst \<and> prompt_cache s1 = prompt_cache s0"
  proof (cases "initialized inst0")
    case True
    with init_initialized [OF obj0 True, of U C M k t l] init have "s1 = s0"
      by simp
    with True settled0 obj0 show ?thesis
      by simp
  next
    case False
    from init_cases [OF obj0 False init] r1 show ?thesis
      by auto
  qed
  then obtain inst where obj1: "heap s1 a = Some inst"
    and fields1: "text_attr inst = Some t" "language inst = Some l"
    and flag1: "initialized inst"
    and cache1: "prompt_cache s1 = prompt_cache s0"
    by blast
  from last0 cache1 have last1: "entries (prompt_cache s1) = es @ [(k, a)]"
    by simp
  show ?thesis
    by (rule request_settled [OF last1 last0(2) obj1 fields1 flag1])
qed

theorem same_request_twice_witness:
  "0 < capacity (prompt_cache (initial_state 10))
   \<and> ReferenceAudio sample_db flaky_collab sample_models sample_key [0x304B] lang_ja
        (initial_state 10) = (Inr 0, cached_state)
   \<and> ReferenceAudio sample_db flaky_collab sample_models sample_key [0x304B] lang_ja
        cached_state = (Inr 0, cached_state)"
proof -
  have cap: "0 < capacity (prompt_cache (initial_state 10))"
    by (simp add: initial_state_def lru_empty_def)
  from same_request_twice [OF cap cached_state_reached] cap cached_state_reached
  show ?thesis
    by (intro conjI)
qed

text \<open>\<open>__new__\<close> for a cached key makes no object and keeps the key on its object.\<close>

lemma new_cached_frame:
  assumes cached: "map_of (entries (prompt_cache s)) k = Some a"
    and obj: "heap s a = Some inst"
    and old: "text_attr inst = Some t0"
    and run: "ReferenceAudio_new U C M k t l s = (r, s')"
  shows "next_addr s' = next_addr s
       \<and> map_of (entries (prompt_cache s')) k = Some a
       \<and> (\<forall>b. r = Inr b \<longrightarrow> b = a)
       \<and> (\<exists>inst'. heap s' a = Some inst' \<and> initialized inst' = initialized inst)"
proof -
  define s0 where "s0 = s\<lparr>prompt_cache := (prompt_cache s)
                        \<lparr>entries := lru_without k (entries (prompt_cache s)) @ [(k, a)]\<rparr>\<rparr>"
  have key0: "map_of (entries (prompt_cache s0)) k = Some a"
    by (simp add: s0_def map_of_refreshed del: map_of_append)
  show ?thesis
  proof (cases "t0 \<noteq> t \<or> language inst \<noteq> Some l")
    case True
    obtain r2 s2 where set: "set_text U C M a t l s0 = (r2, s2)"
      by (cases "set_text U C M a t l s0")
    have "ReferenceAudio_new U C M k t l s =
          (case r2 of Inl e \<Rightarrow> (Inl e, s2) | Inr u \<Rightarrow> (Inr a, s2))"
      unfolding new_cached_differs [OF cached obj old True] s0_def [symmetric] set
      by (simp split: sum.splits)
    with run have r: "\<forall>b. r = Inr b \<longrightarrow> b = a" and s': "s' = s2"
      by (cases r2; auto)+
    have obj0: "heap s0 a = Some inst"
      by (simp add: s0_def obj)
    from set_text_cases [OF obj0 set] obtain inst' evs
      where s2: "s2 = s0\<lparr>heap := (heap s0)(a \<mapsto> inst'), calls := calls s0 @ evs\<rparr>"
        and flag: "initialized inst' = initialized inst"
      by blast
    have "next_addr s' = next_addr s"
      by (simp add: s' s2 s0_def)
    moreover have "map_of (entries (prompt_cache s')) k = Some a"
      using key0 by (simp add: s' s2)
    moreover have "\<exists>inst'. heap s' a = Some inst' \<and> initialized inst' = initialized inst"
      using flag by (simp add: s' s2)
    ultimately show ?thesis
      using r by blast
  next
    case False
    then have "text_attr inst = Some t" "language inst = Some l"
      using old by auto
    from new_cached_same [OF cached obj this, of U C M] run
    have r: "r = Inr a" and s': "s' = s0"
      by (simp_all add: s0_def)
    have "next_addr s' = next_addr s"
      by (simp add: s' s0_def)
    moreover have "map_of (entries (prompt_cache s')) k = Some a"
      using key0 by (simp add: s')
    moreover have "\<exists>inst'. heap s' a = Some inst' \<and> initialized inst' = initialized inst"
      using obj by (simp add: s' s0_def)
    ultimately show ?thesis
      using r by blast
  qed
qed

text \<open>
  A request for a cached key whose object has its text but not \<open>_initialized\<close>: no object
  is made, the key stays on the object, and the object is initialized exactly when the
  request returns.
\<close>

lemma request_uninitialized:
  assumes cached: "map_of (entries (prompt_cache s)) k = Some a"
    and obj: "heap s a = Some inst"
    and old: "text_attr inst = Some t0" "language inst = Some l0"
    and fresh: "\<not> initialized inst"
    and run: "ReferenceAudio U C M k t l s = (r, s')"
  shows "next_addr s' = next_addr s
       \<and> map_of (entries (prompt_cache s')) k = Some a
       \<and> (\<forall>b. r = Inr b \<longrightarrow> b = a)
       \<and> (\<forall>c. c \<noteq> a \<longrightarrow> heap s' c = heap s c)
       \<and> (\<exists>inst'. heap s' a = Some inst' \<and> text_attr inst' = Some t
              \<and> language inst' = Some l
              \<and> (\<forall>b. r = Inr b \<longrightarrow> initialized inst')
              \<and> (\<forall>e. r = Inl e \<longrightarrow> \<not> initialized inst'))"
proof -
  define s0 where "s0 = s\<lparr>prompt_cache := (prompt_cache s)
                        \<lparr>entries := lru_without k (entries (prompt_cache s)) @ [(k, a)]\<rparr>\<rparr>"
  have key0: "map_of (entries (prompt_cache s0)) k = Some a"
    by (simp add: s0_def map_of_refreshed del: map_of_append)
  have obj0: "heap s0 a = Some inst"
    by (simp add: s0_def obj)
  obtain r1 s1 where new: "ReferenceAudio_new U C M k t l s = (r1, s1)"
    by (cases "ReferenceAudio_new U C M k t l s")
  have step: "\<exists>i1. heap s1 a = Some i1 \<and> text_attr i1 = Some t \<and> language i1 = Some l
                 \<and> \<not> initialized i1 \<and> heap s1 = (heap s)(a \<mapsto> i1)
                 \<and> prompt_cache s1 = prompt_cache s0 \<and> next_addr s1 = next_addr s
                 \<and> (\<forall>b. r1 = Inr b \<longrightarrow> b = a)"
  proof (cases "t0 \<noteq> t \<or> language inst \<noteq> Some l")
    case True
    obtain r2 s2 where set: "set_text U C M a t l s0 = (r2, s2)"
      by (cases "set_text U C M a t l s0")
    have "ReferenceAudio_new U C M k t l s =
          (case r2 of Inl e \<Rightarrow> (Inl e, s2) | Inr u \<Rightarrow> (Inr a, s2))"
      unfolding new_cached_differs [OF cached obj old(1) True] s0_def [symmetric] set
      by (simp split: sum.splits)
    with new have both: "(\<forall>b. r1 = Inr b \<longrightarrow> b = a) \<and> s1 = s2"
      by (cases r2) auto
    then have r1: "\<forall>b. r1 = Inr b \<longrightarrow> b = a" and s1: "s1 = s2"
      by simp_all
    from set_text_cases [OF obj0 set] obtain i1 evs
      where s2: "s2 = s0\<lparr>heap := (heap s0)(a \<mapsto> i1), calls := calls s0 @ evs\<rparr>"
        and fields: "text_attr i1 = Some t" "language i1 = Some l"
        and flag: "initialized i1 = initialized inst"
      by blast
    show ?thesis
      using fields flag fresh r1
      by (intro exI [of _ i1]) (simp add: s1 s2 s0_def)
  next
    case False
    with old have same: "text_attr inst = Some t" "language inst = Some l"
      by simp_all
    from new_cached_same [OF cached obj same, of U C M] new
    have r1: "r1 = Inr a" and s1: "s1 = s0"
      by (simp_all add: s0_def)
    show ?thesis
      using same fresh obj r1
      by (intro exI [of _ inst]) (auto simp: s1 s0_def)
  qed
  then obtain i1 where obj1: "heap s1 a = Some i1"
    and fields1: "text_attr i1 = Some t" "language i1 = Some l"
    and fresh1: "\<not> initialized i1"
    and heap1: "heap s1 = (heap s)(a \<mapsto> i1)"
    and cache1: "prompt_cache s1 = prompt_cache s0"
    and next1: "next_addr s1 = next_addr s"
    and same1: "\<forall>b. r1 = Inr b \<longrightarrow> b = a"
    by blast
  have key1: "map_of (entries (prompt_cache s1)) k = Some a"
    using key0 by (simp add: cache1)
  show ?thesis
  proof (cases r1)
    case (Inl e)
    with run new have "r = Inl e" "s' = s1"
      by (simp_all add: ReferenceAudio_def)
    then show ?thesis
      using obj1 fields1 fresh1 key1 next1 heap1
      by (intro conjI allI impI exI [of _ i1]) simp_all
  next
    case (Inr b)
    with same1 have b: "b = a"
      by simp
    obtain r3 s3 where init: "ReferenceAudio_init U C M a k t l s1 = (r3, s3)"
      by (cases "ReferenceAudio_init U C M a k t l s1")
    from run new Inr b init
    have both: "r = (case r3 of Inl e \<Rightarrow> Inl e | Inr u \<Rightarrow> Inr a) \<and> s' = s3"
      by (cases r3) (auto simp: ReferenceAudio_def)
    then have r: "r = (case r3 of Inl e \<Rightarrow> Inl e | Inr u \<Rightarrow> Inr a)" and s': "s' = s3"
      by simp_all
    from init_cases [OF obj1 fresh1 init] obtain i3
      where cache3: "prompt_cache s3 = prompt_cache s1"
        and next3: "next_addr s3 = next_addr s1"
        and others3: "\<forall>c. c \<noteq> a \<longrightarrow> heap s3 c = heap s1 c"
        and obj3: "heap s3 a = Some i3"
        and fields3: "text_attr i3 = Some t" "language i3 = Some l"
        and good3: "\<forall>u. r3 = Inr u \<longrightarrow> initialized i3"
        and bad3: "\<forall>e. r3 = Inl e \<longrightarrow> \<not> initialized i3"
      by blast
    have "next_addr s' = next_addr s"
      by (simp add: s' next3 next1)
    moreover have "map_of (entries (prompt_cache s')) k = Some a"
      using key1 by (simp add: s' cache3)
    moreover have "\<forall>b. r = Inr b \<longrightarrow> b = a"
      by (cases r3) (simp_all add: r)
    moreover have "\<forall>c. c \<noteq> a \<longrightarrow> heap s' c = heap s c"
      using others3 by (simp add: s' heap1)
    moreover have "\<exists>inst'. heap s' a = Some inst' \<and> text_attr inst' = Some t
              \<and> language inst' = Some l
              \<and> (\<forall>b. r = Inr b \<longrightarrow> initialized inst')
              \<and> (\<forall>e. r = Inl e \<longrightarrow> \<not> initialized inst')"
      using obj3 fields3 good3 bad3
      by (intro exI [of _ i3]) (cases r3; simp add: s' r)
    ultimately show ?thesis
      by (intro conjI)
  qed
qed

text \<open>
  Claim C10, amended: for a key that is not cached (in a cache that can hold an entry),
  \<open>__new__\<close> stores the new object, without attributes, under the key and returns it with
  the log of collaborator calls untouched, so before any initialization work; when the
  initialization of the constructor call then raises, the key stays on that object,
  which is not initialized. A later request for the key (the constructor call, whatever
  its text, its language and the collaborators) makes no object and changes no other
  object: \<open>__new__\<close> returns that same object, still not initialized (for the same text
  and language with the heap and the log as they were), and \<open>__init__\<close> runs on it
  again, so that the request, when it returns, returns that object initialized, with
  the text and language of the request, and, when it raises again, leaves the object
  under the key, not initialized.
\<close>

theorem insert_before_init:
  assumes absent: "\<not> lru_contains (prompt_cache s) k"
    and cap: "0 < capacity (prompt_cache s)"
  shows "ReferenceAudio_new U C M k t l s =
           (Inr (next_addr s),
            s\<lparr>heap := (heap s)(next_addr s \<mapsto> bare_instance),
               next_addr := Suc (next_addr s),
               prompt_cache := lru_set (prompt_cache s) k (next_addr s)\<rparr>)
       \<and> map_of (entries (lru_set (prompt_cache s) k (next_addr s))) k = Some (next_addr s)
       \<and> (\<forall>e s2. ReferenceAudio U C M k t l s = (Inl e, s2) \<longrightarrow>
             map_of (entries (prompt_cache s2)) k = Some (next_addr s)
           \<and> next_addr s2 = Suc (next_addr s)
           \<and> (\<exists>inst. heap s2 (next_addr s) = Some inst \<and> \<not> initialized inst
                  \<and> text_attr inst = Some t \<and> language inst = Some l)
           \<and> (\<forall>U' C' M' t' l' r s3.
                  ReferenceAudio U' C' M' k t' l' s2 = (r, s3) \<longrightarrow>
                  next_addr s3 = next_addr s2
                \<and> map_of (entries (prompt_cache s3)) k = Some (next_addr s)
                \<and> (\<forall>b. r = Inr b \<longrightarrow> b = next_addr s)
                \<and> (\<forall>c. c \<noteq> next_addr s \<longrightarrow> heap s3 c = heap s2 c)
                \<and> (\<exists>inst'. heap s3 (next_addr s) = Some inst'
                       \<and> text_attr inst' = Some t' \<and> language inst' = Some l'
                       \<and> (\<forall>b. r = Inr b \<longrightarrow> initialized inst')
                       \<and> (\<forall>e'. r = Inl e' \<longrightarrow> \<not> initialized inst')))
           \<and> (\<forall>t' l' r s3. ReferenceAudio_new U C M k t' l' s2 = (r, s3) \<longrightarrow>
                  next_addr s3 = next_addr s2
                \<and> map_of (entries (prompt_cache s3)) k = Some (next_addr s)
                \<and> (\<forall>b. r = Inr b \<longrightarrow> b = next_addr s)
                \<and> (\<exists>inst'. heap s3 (next_addr s) = Some inst' \<and> \<not> initialized inst'))
           \<and> (\<exists>s3. ReferenceAudio_new U C M k t l s2 = (Inr (next_addr s), s3)
                  \<and> heap s3 = heap s2 \<and> calls s3 = calls s2))"
proof (intro conjI allI impI)
  define a where "a = next_addr s"
  define s1 where "s1 = s\<lparr>heap := (heap s)(a \<mapsto> bare_instance), next_addr := Suc a,
                          prompt_cache := lru_set (prompt_cache s) k a\<rparr>"
  show new: "ReferenceAudio_new U C M k t l s =
           (Inr (next_addr s),
            s\<lparr>heap := (heap s)(next_addr s \<mapsto> bare_instance),
               next_addr := Suc (next_addr s),
               prompt_cache := lru_set (prompt_cache s) k (next_addr s)\<rparr>)"
    using absent by (simp add: ReferenceAudio_new_def Let_def)
  from lru_set_last [OF cap, of k a] obtain es
    where last: "entries (lru_set (prompt_cache s) k a) = es @ [(k, a)]" "k \<notin> fst ` set es"
    by blast
  show key: "map_of (entries (lru_set (prompt_cache s) k (next_addr s))) k = Some (next_addr s)"
    unfolding a_def [symmetric] last(1) using last(2) by (rule map_of_last)
  fix e s2
  assume failed: "ReferenceAudio U C M k t l s = (Inl e, s2)"
  have new1: "ReferenceAudio_new U C M k t l s = (Inr a, s1)"
    using new by (simp add: a_def s1_def)
  have obj1: "heap s1 a = Some bare_instance" and fresh: "\<not> initialized bare_instance"
    by (simp_all add: s1_def bare_instance_def)
  from failed new1 have init: "ReferenceAudio_init U C M a k t l s1 = (Inl e, s2)"
    by (cases "ReferenceAudio_init U C M a k t l s1")
      (auto simp: ReferenceAudio_def split: sum.splits)
  from init_cases [OF obj1 fresh init] obtain inst
    where cache2: "prompt_cache s2 = prompt_cache s1"
      and next2: "next_addr s2 = next_addr s1"
      and obj2: "heap s2 a = Some inst"
      and fields2: "text_attr inst = Some t" "language inst = Some l"
      and fresh2: "\<not> initialized inst"
    by auto
  have last2: "entries (prompt_cache s2) = es @ [(k, a)]"
    by (simp add: cache2 s1_def last)
  show key2: "map_of (entries (prompt_cache s2)) k = Some (next_addr s)"
    unfolding a_def [symmetric] last2 using last(2) by (rule map_of_last)
  show "next_addr s2 = Suc (next_addr s)"
    by (simp add: next2 s1_def a_def)
  show "\<exists>inst. heap s2 (next_addr s) = Some inst \<and> \<not> initialized inst
                  \<and> text_attr inst = Some t \<and> language inst = Some l"
    using obj2 fields2 fresh2 by (simp add: a_def)
  show "\<exists>s3. ReferenceAudio_new U C M k t l s2 = (Inr (next_addr s), s3)
                  \<and> heap s3 = heap s2 \<and> calls s3 = calls s2"
    using new_cached_same [OF key2 [folded a_def] obj2 fields2, of U C M]
    by (simp add: a_def)
  {
    fix t' l' r s3
    assume again: "ReferenceAudio_new U C M k t' l' s2 = (r, s3)"
    from new_cached_frame [OF key2 [folded a_def] obj2 fields2(1) again] fresh2
    have frame: "next_addr s3 = next_addr s2"
      "map_of (entries (prompt_cache s3)) k = Some a"
      "\<forall>b. r = Inr b \<longrightarrow> b = a"
      "\<exists>inst'. heap s3 a = Some inst' \<and> \<not> initialized inst'"
      by auto
    show "next_addr s3 = next_addr s2"
      by (rule frame(1))
    show "map_of (entries (prompt_cache s3)) k = Some (next_addr s)"
      using frame(2) by (simp add: a_def)
    show "\<exists>inst'. heap s3 (next_addr s) = Some inst' \<and> \<not> initialized inst'"
      using frame(4) by (simp add: a_def)
    show "b = next_addr s" if "r = Inr b" for b
      using frame(3) that by (simp add: a_def)
  }
  fix U' C' M' t' l' r s3
  assume request: "ReferenceAudio U' C' M' k t' l' s2 = (r, s3)"
  note later = request_uninitialized [OF key2 [folded a_def] obj2 fields2 fresh2 request]
  show "next_addr s3 = next_addr s2"
    using later by simp
  show "map_of (entries (prompt_cache s3)) k = Some (next_addr s)"
    using later by (simp add: a_def)
  show "b = next_addr s" if "r = Inr b" for b
    using later that by (simp add: a_def)
  show "heap s3 c = heap s2 c" if "c \<noteq> next_addr s" for c
    using later that by (simp add: a_def)
  show "\<exists>inst'. heap s3 (next_addr s) = Some inst'
                       \<and> text_attr inst' = Some t' \<and> language inst' = Some l'
                       \<and> (\<forall>b. r = Inr b \<longrightarrow> initialized inst')
                       \<and> (\<forall>e'. r = Inl e' \<longrightarrow> \<not> initialized inst')"
    using later [THEN conjunct2, THEN conjunct2, THEN conjunct2, THEN conjunct2]
    by (simp only: a_def)
qed

lemma failed_state_reached:
  "ReferenceAudio sample_db flaky_collab sample_models sample_key [0x3042] lang_ja
     (initial_state 10) = (Inl (CollaboratorFailure [0x3042]), failed_state)"
  by (simp add: ReferenceAudio_def ReferenceAudio_new_def ReferenceAudio_init_def
      set_text_def initial_state_def lru_contains_def lru_keys_def lru_empty_def
      lru_set_def lru_without_def Let_def bare_instance_def update_instance_def
      log_call_def lang_ja_def lang_zh_def a_fails failed_state_def failed_instance_def)

lemma failed_state_entry:
  "map_of (entries (prompt_cache failed_state)) sample_key = Some 0"
  "heap failed_state 0 = Some failed_instance"
  "text_attr failed_instance = Some [0x3042]"
  by (simp_all add: failed_state_def failed_instance_def)

lemma failed_state_again:
  "ReferenceAudio sample_db flaky_collab sample_models sample_key [0x304B] lang_ja
     failed_state
   = (Inr 0,
      \<lparr> prompt_cache = \<lparr> capacity = 10, entries = [(sample_key, 0)] \<rparr>,
        heap = [0 \<mapsto> cached_instance],
        next_addr = 1, cn_hubert = True,
        calls = [Phonemized lang_ja [0x3042], Phonemized lang_ja [0x304B],
                 Phonemized lang_ja [0x304B], AudioLoaded sample_key, Resampled,
                 HubertLoaded, HubertRun] \<rparr>)"
proof -
  have differs: "[0x3042] \<noteq> [0x304B :: nat] \<or> language failed_instance \<noteq> Some lang_ja"
    by simp
  show ?thesis
    unfolding ReferenceAudio_def new_cached_differs [OF failed_state_entry differs]
    by (simp add: ReferenceAudio_init_def init_audio_def set_text_def Let_def
        update_instance_def log_call_def lru_without_def
        lang_ja_def lang_zh_def ka_phones [unfolded lang_ja_def] int64_row_def
        phonemes_shape1_def sample_models_def failed_state_def
        failed_instance_def cached_instance_def replicate_two)
qed

theorem insert_before_init_witness:
  "\<not> lru_contains (prompt_cache (initial_state 10)) sample_key
   \<and> 0 < capacity (prompt_cache (initial_state 10))
   \<and> fst (ReferenceAudio sample_db flaky_collab sample_models sample_key [0x3042] lang_ja
             (initial_state 10)) = Inl (CollaboratorFailure [0x3042])
   \<and> map_of (entries (prompt_cache
        (snd (ReferenceAudio sample_db flaky_collab sample_models sample_key [0x3042] lang_ja
                (initial_state 10))))) sample_key = Some 0
   \<and> (\<exists>inst. heap (snd (ReferenceAudio sample_db flaky_collab sample_models sample_key
                          [0x3042] lang_ja (initial_state 10))) 0 = Some inst
          \<and> \<not> initialized inst \<and> text_attr inst = Some [0x3042]
          \<and> language inst = Some lang_ja)
   \<and> fst (ReferenceAudio sample_db flaky_collab sample_models sample_key [0x304B] lang_ja
            (snd (ReferenceAudio sample_db flaky_collab sample_models sample_key [0x3042]
                    lang_ja (initial_state 10)))) = Inr 0
   \<and> (\<exists>inst'. heap (snd (ReferenceAudio sample_db flaky_collab sample_models sample_key
                           [0x304B] lang_ja
                           (snd (ReferenceAudio sample_db flaky_collab sample_models
                                   sample_key [0x3042] lang_ja (initial_state 10))))) 0
                  = Some inst'
          \<and> text_attr inst' = Some [0x304B] \<and> language inst' = Some lang_ja
          \<and> initialized inst')"
proof -
  define result where "result = ReferenceAudio sample_db flaky_collab sample_models
    sample_key [0x3042] lang_ja (initial_state 10)"
  define later where "later = ReferenceAudio sample_db flaky_collab sample_models
    sample_key [0x304B] lang_ja (snd result)"
  have absent: "\<not> lru_contains (prompt_cache (initial_state 10)) sample_key"
    by (simp add: initial_state_def lru_empty_def lru_contains_def lru_keys_def)
  have cap: "0 < capacity (prompt_cache (initial_state 10))"
    by (simp add: initial_state_def lru_empty_def)
  have first: "next_addr (initial_state 10) = 0"
    by (simp add: initial_state_def)
  have raised: "fst result = Inl (CollaboratorFailure [0x3042])"
    by (simp add: result_def failed_state_reached)
  then have failed: "ReferenceAudio sample_db flaky_collab sample_models sample_key [0x3042]
                       lang_ja (initial_state 10) = (Inl (CollaboratorFailure [0x3042]), snd result)"
    by (simp add: result_def prod_eq_iff)
  have returned: "fst later = Inr 0"
    by (simp add: later_def result_def failed_state_reached failed_state_again)
  then have request: "ReferenceAudio sample_db flaky_collab sample_models sample_key [0x304B]
                       lang_ja (snd result) = (Inr 0, snd later)"
    by (simp add: later_def prod_eq_iff)
  note facts = insert_before_init [OF absent cap, of sample_db flaky_collab sample_models
      "[0x3042]" lang_ja]
  note after = facts [THEN conjunct2, THEN conjunct2, THEN spec, THEN spec, THEN mp, OF failed]
  have key: "map_of (entries (prompt_cache (snd result))) sample_key = Some 0"
    using after [THEN conjunct1] by (simp only: first)
  have entry: "\<exists>inst. heap (snd result) 0 = Some inst \<and> \<not> initialized inst
                 \<and> text_attr inst = Some [0x3042] \<and> language inst = Some lang_ja"
    using after [THEN conjunct2, THEN conjunct2, THEN conjunct1] by (simp only: first)
  note again = after [THEN conjunct2, THEN conjunct2, THEN conjunct2, THEN conjunct1,
      THEN spec, THEN spec, THEN spec, THEN spec, THEN spec, THEN spec, THEN spec,
      THEN mp, OF request]
  note settled = again [THEN conjunct2, THEN conjunct2, THEN conjunct2, THEN conjunct2]
  from settled obtain inst' where here: "heap (snd later) (next_addr (initial_state 10)) = Some inst'"
    and fields: "text_attr inst' = Some [0x304B]" "language inst' = Some lang_ja"
    and good: "\<forall>b. (Inr 0 :: error + addr) = Inr b \<longrightarrow> initialized inst'"
    by (elim exE conjE) (rule that)
  from good have ready: "initialized inst'"
    by simp
  from here have here': "heap (snd later) 0 = Some inst'"
    by (simp only: first)
  have done_later: "\<exists>inst'. heap (snd later) 0 = Some inst'
          \<and> text_attr inst' = Some [0x304B] \<and> language inst' = Some lang_ja
          \<and> initialized inst'"
    by (intro exI [of _ inst'] conjI here' fields ready)
  show ?thesis
    unfolding later_def [symmetric] result_def [symmetric]
    by (intro conjI absent cap raised key entry returned done_later)
qed

text \<open>
  Claim C10 as stated has a later request for the key return the entry uninitialized.
  The first request for the key, with the text of the kana U+3042 on which the front-end
  raises, ends in that exception and leaves the key cached on an object without
  \<open>_initialized\<close> and without a waveform. The next request for the key, with the text of
  the kana U+304B, returns that object initialized, with its waveform loaded.
\<close>

theorem initialized_later_counterexample:
  "ReferenceAudio sample_db flaky_collab sample_models sample_key [0x3042] lang_ja
     (initial_state 10) = (Inl (CollaboratorFailure [0x3042]), failed_state)
   \<and> map_of (entries (prompt_cache failed_state)) sample_key = Some 0
   \<and> map_option initialized (heap failed_state 0) = Some False
   \<and> map_option audio_32k (heap failed_state 0) = Some Absent
   \<and> fst (ReferenceAudio sample_db flaky_collab sample_models sample_key [0x304B] lang_ja
            failed_state) = Inr 0
   \<and> heap (snd (ReferenceAudio sample_db flaky_collab sample_models sample_key [0x304B]
                  lang_ja failed_state)) 0 = Some cached_instance
   \<and> map_option initialized
        (heap (snd (ReferenceAudio sample_db flaky_collab sample_models sample_key [0x304B]
                      lang_ja failed_state)) 0) = Some True
   \<and> map_option audio_32k
        (heap (snd (ReferenceAudio sample_db flaky_collab sample_models sample_key [0x304B]
                      lang_ja failed_state)) 0) = Some (Val [1, 2, 3, 4])"
  unfolding failed_state_again
  by (simp add: failed_state_reached failed_state_def failed_instance_def cached_instance_def)

end
